theory Spec2Isabelle
  imports Main "HOL-Library.Char_ord" "HOL-Library.List_Lexorder" "HOL-Library.Product_Lexorder"
    "HOL-Library.Multiset"
begin

section \<open>Python values used by the scraper\<close>

text \<open>
  A string is a list of characters, and a character is a code point below 256 (Latin-1
  text). \<open>str.strip()\<close> removes the characters for which \<open>str.isspace()\<close> holds: in this
  range the ASCII ones and U+0085 and U+00A0. \<open>str.upper()\<close> maps the letters \<open>a..z\<close> and
  U+00E0..U+00FE (without the division sign U+00F7) to their capitals, 32 code points below,
  maps U+00DF (sharp s) to \<open>SS\<close>, and leaves every other character alone. The capitals of
  U+00B5 and U+00FF lie outside the range; the two are kept as they are.
\<close>

datatype exn =
    AttributeError string
  | KeyError string
  | IndexError string
  | Exception string

text \<open>\<open>str(e)\<close>, as stored in \<open>checkpoints.last_error\<close>.\<close>

fun str_exn :: "exn \<Rightarrow> string" where
  "str_exn (AttributeError m) = m"
| "str_exn (KeyError k) = CHR 0x27 # k @ [CHR 0x27]"
| "str_exn (IndexError m) = m"
| "str_exn (Exception m) = m"

definition py_isspace :: "char \<Rightarrow> bool" where
  "py_isspace c = (c \<in> set [CHR 0x09, CHR 0x0A, CHR 0x0B, CHR 0x0C, CHR 0x0D,
                              CHR 0x1C, CHR 0x1D, CHR 0x1E, CHR 0x1F, CHR 0x20,
                              CHR 0x85, CHR 0xA0])"

definition py_strip :: "string \<Rightarrow> string" where
  "py_strip s = rev (dropWhile py_isspace (rev (dropWhile py_isspace s)))"

definition lower_letters :: string where
  "lower_letters = ''abcdefghijklmnopqrstuvwxyz'' @
     [CHR 0xE0, CHR 0xE1, CHR 0xE2, CHR 0xE3, CHR 0xE4, CHR 0xE5, CHR 0xE6, CHR 0xE7,
      CHR 0xE8, CHR 0xE9, CHR 0xEA, CHR 0xEB, CHR 0xEC, CHR 0xED, CHR 0xEE, CHR 0xEF,
      CHR 0xF0, CHR 0xF1, CHR 0xF2, CHR 0xF3, CHR 0xF4, CHR 0xF5, CHR 0xF6, CHR 0xF8,
      CHR 0xF9, CHR 0xFA, CHR 0xFB, CHR 0xFC, CHR 0xFD, CHR 0xFE]"

definition upper_letters :: string where
  "upper_letters = ''ABCDEFGHIJKLMNOPQRSTUVWXYZ'' @
     [CHR 0xC0, CHR 0xC1, CHR 0xC2, CHR 0xC3, CHR 0xC4, CHR 0xC5, CHR 0xC6, CHR 0xC7,
      CHR 0xC8, CHR 0xC9, CHR 0xCA, CHR 0xCB, CHR 0xCC, CHR 0xCD, CHR 0xCE, CHR 0xCF,
      CHR 0xD0, CHR 0xD1, CHR 0xD2, CHR 0xD3, CHR 0xD4, CHR 0xD5, CHR 0xD6, CHR 0xD8,
      CHR 0xD9, CHR 0xDA, CHR 0xDB, CHR 0xDC, CHR 0xDD, CHR 0xDE]"

definition py_upper_char :: "char \<Rightarrow> string" where
  "py_upper_char c =
     (if c = CHR 0xDF then ''SS''
      else case map_of (zip lower_letters upper_letters) c of
             Some u \<Rightarrow> [u]
           | None \<Rightarrow> [c])"

definition py_upper :: "string \<Rightarrow> string" where
  "py_upper s = concat (map py_upper_char s)"

definition startswith :: "string \<Rightarrow> string \<Rightarrow> bool" where
  "startswith s p = (take (length p) s = p)"

text \<open>\<open>(x or "")\<close> for an argument that is a string or \<open>None\<close>.\<close>

fun py_or_empty :: "string option \<Rightarrow> string" where
  "py_or_empty None = []"
| "py_or_empty (Some s) = s"

section \<open>aggregates.py: group-type inference\<close>

text \<open>
  \<^verbatim>\<open>
  def _infer_group_type(table_no, group_code, fallback):
      tn = (table_no or "").strip().upper()
      gc = (group_code or "").strip().upper()
      if tn.startswith("E-") or gc.startswith("E-"): return "ENGINE"
      if tn.startswith("F-") or gc.startswith("F-"): return "FRAME"
      return fallback
  \<close>
\<close>

definition infer_group_type :: "string option \<Rightarrow> string option \<Rightarrow> string \<Rightarrow> string" where
  "infer_group_type table_no group_code fallback =
     (let tn = py_upper (py_strip (py_or_empty table_no));
          gc = py_upper (py_strip (py_or_empty group_code))
      in if startswith tn ''E-'' \<or> startswith gc ''E-'' then ''ENGINE''
         else if startswith tn ''F-'' \<or> startswith gc ''F-'' then ''FRAME''
         else fallback)"

text \<open>
  What the two prefix tests mean on the raw token: after its leading whitespace the token
  begins with the letter (in either case) followed by a hyphen.
\<close>

definition token_starts :: "char \<Rightarrow> char \<Rightarrow> string \<Rightarrow> bool" where
  "token_starts lo up s =
     (case dropWhile py_isspace s of
        a # b # _ \<Rightarrow> (a = lo \<or> a = up) \<and> b = CHR ''-''
      | _ \<Rightarrow> False)"


section \<open>datamodel.py\<close>

text \<open>
  The four dataclasses. Field names carry a prefix per class (\<open>v_\<close>, \<open>ti_\<close>, \<open>pp_\<close>,
  \<open>pr_\<close>), since several classes share \<open>vehicle_id\<close>, \<open>group_type\<close>, \<open>table_no\<close> and
  \<open>group_code\<close>. \<open>group_type\<close> is annotated \<open>Literal["ENGINE", "FRAME"]\<close> and is a
  plain string at run time.
\<close>

record Vehicle =
  v_vehicle_id :: string
  v_vehicle_name :: string
  v_model_code :: string
  v_source_url :: string

record TableIndex =
  ti_vehicle_id :: string
  ti_group_type :: string
  ti_s_no :: string
  ti_table_no :: string
  ti_group_desc :: string
  ti_group_code :: string
  ti_variant :: "string option"
  ti_aggregates_url :: string

record PartsPage =
  pp_vehicle_id :: string
  pp_group_type :: string
  pp_table_no :: string
  pp_group_code :: string
  pp_parts_page_url :: string
  pp_image_path :: "string option"

record PartRow =
  pr_vehicle_id :: string
  pr_group_type :: string
  pr_table_no :: string
  pr_group_code :: string
  pr_ref_no :: string
  pr_part_no :: string
  pr_description :: string
  pr_remark :: string
  pr_req_no :: string
  pr_moq :: string
  pr_mrp :: string

text \<open>
  A Python \<open>dict\<close> with string keys and string values, as an association list in the
  order of the literal. \<open>d[k]\<close> raises \<open>KeyError\<close> on a missing key, \<open>d.get(k, default)\<close>
  does not.
\<close>

type_synonym pydict = "(string \<times> string) list"

definition dict_item :: "pydict \<Rightarrow> string \<Rightarrow> exn + string" where
  "dict_item d k = (case map_of d k of None \<Rightarrow> Inl (KeyError k) | Some v \<Rightarrow> Inr v)"

definition dict_get :: "pydict \<Rightarrow> string \<Rightarrow> string \<Rightarrow> string" where
  "dict_get d k dflt = (case map_of d k of None \<Rightarrow> dflt | Some v \<Rightarrow> v)"

section \<open>store.py: the persistent state\<close>

text \<open>
  \<open>_init_database\<close> creates four tables: \<open>checkpoints\<close>, \<open>vehicles\<close>, \<open>parts_pages\<close>
  and \<open>parts\<close>, and a unique index on \<open>parts\<close>. Beside the database the class writes the
  CSV file and the Parquet file. The timestamp columns (\<open>updated_at\<close>, and \<open>created_at\<close>
  of \<open>vehicles\<close>) hold \<open>datetime.now()\<close> and are left out. An output file is the
  table of the cells written to it, in the seventeen columns of \<open>desired_cols\<close>; quoting
  and text encoding are not modelled, what reading the CSV file back makes of a cell is.

  A group is identified by \<open>(vehicle_id, group_type, table_no, group_code)\<close>, the primary
  key of \<open>checkpoints\<close> and \<open>parts_pages\<close>.
\<close>

type_synonym group_key = "string \<times> string \<times> string \<times> string"

record checkpoint =
  cp_status :: string
  cp_row_count :: "nat option"
  cp_image_saved :: nat
  cp_last_error :: "string option"

text \<open>
  A row of the table \<open>parts\<close>, with every column of its \<open>CREATE TABLE\<close>. The columns
  \<open>vehicle_name\<close>, \<open>model_code\<close>, \<open>group_desc\<close> and \<open>created_at\<close> are never given a
  value by an \<open>INSERT\<close> of this class, so they hold \<open>NULL\<close> (\<open>None\<close>).
\<close>

record parts_row =
  db_vehicle_id :: string
  db_vehicle_name :: "string option"
  db_model_code :: "string option"
  db_group_type :: string
  db_table_no :: string
  db_group_code :: string
  db_group_desc :: "string option"
  db_ref_no :: string
  db_part_no :: string
  db_description :: string
  db_remark :: string
  db_req_no :: string
  db_moq :: string
  db_mrp :: string
  db_parts_page_url :: string
  db_image_path :: string
  db_source_url :: string
  db_created_at :: "string option"

text \<open>A row of the output shard, with the columns of \<open>desired_cols\<close>.\<close>

record shard_row =
  sh_vehicle_id :: string
  sh_vehicle_name :: string
  sh_model_code :: string
  sh_group_type :: string
  sh_table_no :: string
  sh_group_code :: string
  sh_group_desc :: string
  sh_ref_no :: string
  sh_part_no :: string
  sh_description :: string
  sh_remark :: string
  sh_req_no :: string
  sh_moq :: string
  sh_mrp :: string
  sh_image_path :: string
  sh_parts_page_url :: string
  sh_source_url :: string

text \<open>
  The store: the four tables and the two output files (\<open>None\<close>: the file does not exist).
  \<open>parts\<close> is kept in insertion order (rowid order).
\<close>

record store =
  checkpoints :: "group_key \<rightharpoonup> checkpoint"
  vehicles :: "string \<rightharpoonup> (string \<times> string \<times> string)"
  parts_pages :: "group_key \<rightharpoonup> (string \<times> string)"
  parts :: "parts_row list"
  csv_output :: "shard_row list option"
  parquet_output :: "shard_row list option"

definition empty_store :: store where
  "empty_store = \<lparr>checkpoints = Map.empty, vehicles = Map.empty, parts_pages = Map.empty,
                   parts = [], csv_output = None, parquet_output = None\<rparr>"

subsection \<open>Checkpoints\<close>

definition checkpoint_status :: "group_key \<Rightarrow> store \<Rightarrow> string option" where
  "checkpoint_status key s = map_option cp_status (checkpoints s key)"

definition checkpoint_mark_done :: "group_key \<Rightarrow> nat \<Rightarrow> bool \<Rightarrow> store \<Rightarrow> store" where
  "checkpoint_mark_done key row_count image_saved s =
     s\<lparr>checkpoints := (checkpoints s)(key \<mapsto>
         \<lparr>cp_status = ''done'', cp_row_count = Some row_count,
          cp_image_saved = (if image_saved then 1 else 0), cp_last_error = None\<rparr>)\<rparr>"

definition checkpoint_mark_error :: "group_key \<Rightarrow> string \<Rightarrow> store \<Rightarrow> store" where
  "checkpoint_mark_error key error s =
     s\<lparr>checkpoints := (checkpoints s)(key \<mapsto>
         \<lparr>cp_status = ''error'', cp_row_count = None,
          cp_image_saved = 0, cp_last_error = Some error\<rparr>)\<rparr>"

definition checkpoint_mark_pending :: "group_key \<Rightarrow> store \<Rightarrow> store" where
  "checkpoint_mark_pending key s =
     s\<lparr>checkpoints := (checkpoints s)(key \<mapsto>
         \<lparr>cp_status = ''pending'', cp_row_count = None,
          cp_image_saved = 0, cp_last_error = None\<rparr>)\<rparr>"

subsection \<open>Vehicles and parts pages\<close>

definition save_vehicle :: "Vehicle \<Rightarrow> store \<Rightarrow> store" where
  "save_vehicle vehicle s =
     s\<lparr>vehicles := (vehicles s)(v_vehicle_id vehicle \<mapsto>
         (v_vehicle_name vehicle, v_model_code vehicle, v_source_url vehicle))\<rparr>"

definition upsert_parts_page :: "PartsPage \<Rightarrow> store \<Rightarrow> store" where
  "upsert_parts_page parts_page s =
     s\<lparr>parts_pages := (parts_pages s)
         ((pp_vehicle_id parts_page, pp_group_type parts_page, pp_table_no parts_page,
           pp_group_code parts_page) \<mapsto>
          (pp_parts_page_url parts_page, py_or_empty (pp_image_path parts_page)))\<rparr>"

definition save_parts_page :: "PartsPage \<Rightarrow> store \<Rightarrow> store" where
  "save_parts_page parts_page s = upsert_parts_page parts_page s"

subsection \<open>UPSERT of part rows\<close>

text \<open>
  \<open>convert_parts_to_dict_list\<close> builds one dict per part row. \<open>parts_page.image_path\<close>
  is read inside the loop, so a \<open>parts_page\<close> that is \<open>None\<close> raises \<open>AttributeError\<close>
  at the first row (\<open>'NoneType' object has no attribute 'image_path'\<close>) and goes
  unnoticed when there is no row.
\<close>

definition none_has_no_attribute :: "string \<Rightarrow> exn" where
  "none_has_no_attribute name =
     AttributeError (CHR 0x27 # ''NoneType'' @ CHR 0x27 # '' object has no attribute '' @
                     CHR 0x27 # name @ [CHR 0x27])"

definition part_dict :: "Vehicle \<Rightarrow> TableIndex \<Rightarrow> PartsPage \<Rightarrow> PartRow \<Rightarrow> pydict" where
  "part_dict vehicle table_index parts_page part_row =
     [(''vehicle_id'', v_vehicle_id vehicle),
      (''vehicle_name'', v_vehicle_name vehicle),
      (''model_code'', v_model_code vehicle),
      (''group_type'', ti_group_type table_index),
      (''table_no'', ti_table_no table_index),
      (''group_code'', ti_group_code table_index),
      (''group_desc'', ti_group_desc table_index),
      (''ref_no'', pr_ref_no part_row),
      (''part_no'', pr_part_no part_row),
      (''description'', pr_description part_row),
      (''remark'', pr_remark part_row),
      (''req_no'', pr_req_no part_row),
      (''moq'', pr_moq part_row),
      (''mrp'', pr_mrp part_row),
      (''image_path'', py_or_empty (pp_image_path parts_page)),
      (''parts_page_url'', pp_parts_page_url parts_page),
      (''source_url'', v_source_url vehicle)]"

definition convert_parts_to_dict_list ::
  "Vehicle \<Rightarrow> TableIndex \<Rightarrow> PartsPage option \<Rightarrow> PartRow list \<Rightarrow> exn + pydict list" where
  "convert_parts_to_dict_list vehicle table_index parts_page part_rows =
     (if part_rows = [] then Inr []
      else case parts_page of
             None \<Rightarrow> Inl (none_has_no_attribute ''image_path'')
           | Some pp \<Rightarrow> Inr (map (part_dict vehicle table_index pp) part_rows))"

text \<open>
  The parameter tuple of the \<open>INSERT\<close>: the four group columns are read with \<open>d[...]\<close>,
  the ten others with \<open>d.get(..., '')\<close>. The other columns of the new row are \<open>NULL\<close>.
\<close>

definition insert_params :: "pydict \<Rightarrow> exn + parts_row" where
  "insert_params d =
     (case dict_item d ''vehicle_id'' of Inl e \<Rightarrow> Inl e | Inr vid \<Rightarrow>
      case dict_item d ''group_type'' of Inl e \<Rightarrow> Inl e | Inr gt \<Rightarrow>
      case dict_item d ''table_no'' of Inl e \<Rightarrow> Inl e | Inr tn \<Rightarrow>
      case dict_item d ''group_code'' of Inl e \<Rightarrow> Inl e | Inr gc \<Rightarrow>
        Inr \<lparr>db_vehicle_id = vid, db_vehicle_name = None, db_model_code = None,
             db_group_type = gt, db_table_no = tn, db_group_code = gc, db_group_desc = None,
             db_ref_no = dict_get d ''ref_no'' [],
             db_part_no = dict_get d ''part_no'' [],
             db_description = dict_get d ''description'' [],
             db_remark = dict_get d ''remark'' [],
             db_req_no = dict_get d ''req_no'' [],
             db_moq = dict_get d ''moq'' [],
             db_mrp = dict_get d ''mrp'' [],
             db_parts_page_url = dict_get d ''parts_page_url'' [],
             db_image_path = dict_get d ''image_path'' [],
             db_source_url = dict_get d ''source_url'' [],
             db_created_at = None\<rparr>)"

text \<open>The list comprehension over \<open>dict_rows\<close>: the first \<open>KeyError\<close> ends it.\<close>

fun all_params :: "pydict list \<Rightarrow> exn + parts_row list" where
  "all_params [] = Inr []"
| "all_params (d # ds) =
     (case insert_params d of
        Inl e \<Rightarrow> Inl e
      | Inr t \<Rightarrow> (case all_params ds of Inl e \<Rightarrow> Inl e | Inr ts \<Rightarrow> Inr (t # ts)))"

text \<open>The columns of the unique index \<open>parts_unique_idx\<close>: the identity of a part row.\<close>

definition part_identity ::
  "parts_row \<Rightarrow> string \<times> string \<times> string \<times> string \<times> string \<times> string" where
  "part_identity r =
     (db_vehicle_id r, db_group_type r, db_table_no r, db_group_code r, db_ref_no r, db_part_no r)"

text \<open>\<open>DO UPDATE SET\<close>: the eight columns taken from the excluded (new) row.\<close>

definition do_update :: "parts_row \<Rightarrow> parts_row \<Rightarrow> parts_row" where
  "do_update r excluded =
     r\<lparr>db_description := db_description excluded,
       db_remark := db_remark excluded,
       db_req_no := db_req_no excluded,
       db_moq := db_moq excluded,
       db_mrp := db_mrp excluded,
       db_image_path := db_image_path excluded,
       db_parts_page_url := db_parts_page_url excluded,
       db_source_url := db_source_url excluded\<rparr>"

text \<open>
  \<open>INSERT ... ON CONFLICT (identity columns) DO UPDATE\<close> of one row: the row that holds
  the identity already is updated where it stands, otherwise the new row is added last.
\<close>

fun upsert_row :: "parts_row \<Rightarrow> parts_row list \<Rightarrow> parts_row list" where
  "upsert_row t [] = [t]"
| "upsert_row t (r # rs) =
     (if part_identity r = part_identity t then do_update r t # rs else r # upsert_row t rs)"

definition upsert_part_rows :: "pydict list \<Rightarrow> store \<Rightarrow> exn + (store \<times> nat)" where
  "upsert_part_rows dict_rows s =
     (if dict_rows = [] then Inr (s, 0)
      else case all_params dict_rows of
             Inl e \<Rightarrow> Inl e
           | Inr ts \<Rightarrow>
               Inr (s\<lparr>parts := foldl (\<lambda>db t. upsert_row t db) (parts s) ts\<rparr>,
                    length dict_rows))"

subsection \<open>Reading a group back\<close>

text \<open>
  \<open>ORDER BY CAST(NULLIF(ref_no, '') AS INT) NULLS LAST, ref_no\<close>. SQLite casts text to an
  integer by reading the longest prefix that is an integer: leading white space is
  skipped, a sign is read, then decimal digits; the rest is ignored; with no digit the
  value is 0; a value beyond 64 bits is the nearest 64-bit bound. \<open>NULLIF\<close> makes the
  empty string \<open>NULL\<close>, which \<open>NULLS LAST\<close> puts behind every value. The second sort key
  compares the text byte by byte.
\<close>

definition sqlite_isspace :: "char \<Rightarrow> bool" where
  "sqlite_isspace c = (c \<in> set [CHR 0x09, CHR 0x0A, CHR 0x0B, CHR 0x0C, CHR 0x0D, CHR 0x20])"

definition is_digit :: "char \<Rightarrow> bool" where
  "is_digit c = (c \<in> set ''0123456789'')"

definition digit_value :: "char \<Rightarrow> int" where
  "digit_value c = int (of_char c) - 48"

definition digits_value :: "string \<Rightarrow> int" where
  "digits_value ds = foldl (\<lambda>a c. 10 * a + digit_value c) 0 ds"

definition sqlite_cast_int :: "string \<Rightarrow> int" where
  "sqlite_cast_int s =
     (let t = dropWhile sqlite_isspace s;
          neg = (t \<noteq> [] \<and> hd t = CHR ''-'');
          d = (if t \<noteq> [] \<and> (hd t = CHR ''-'' \<or> hd t = CHR ''+'') then tl t else t);
          u = digits_value (takeWhile is_digit d)
      in if neg then max (- (2 ^ 63)) (- u) else min (2 ^ 63 - 1) u)"

text \<open>
  The sort key of a \<open>ref_no\<close>: whether the first \<open>ORDER BY\<close> term is \<open>NULL\<close> (\<open>False\<close>
  sorts first), its value otherwise, and the raw \<open>ref_no\<close>; compared lexicographically.
\<close>

definition ref_sort_key :: "string \<Rightarrow> bool \<times> int \<times> string" where
  "ref_sort_key ref_no = (ref_no = [], if ref_no = [] then 0 else sqlite_cast_int ref_no, ref_no)"

definition in_group :: "group_key \<Rightarrow> parts_row \<Rightarrow> bool" where
  "in_group key r = ((db_vehicle_id r, db_group_type r, db_table_no r, db_group_code r) = key)"

text \<open>
  \<open>_fetch_group_df\<close>: the rows of the group, sorted. The \<open>WHERE\<close> clause fixes the four
  leading columns of the unique index \<open>parts_unique_idx\<close>, so SQLite reads the group
  through that index, in the order of its two other columns \<open>ref_no\<close> and \<open>part_no\<close>, and
  sorts what it reads by the two \<open>ORDER BY\<close> terms: rows with equal terms (the same
  \<open>ref_no\<close>) come out by \<open>part_no\<close> ascending, not in table order. The frame holds the
  fourteen selected columns of each row.
\<close>

definition fetch_group_df :: "group_key \<Rightarrow> store \<Rightarrow> parts_row list" where
  "fetch_group_df key s =
     sort_key (\<lambda>r. (ref_sort_key (db_ref_no r), db_part_no r)) (filter (in_group key) (parts s))"

subsection \<open>Writing a group into the output files\<close>

definition shard_key :: "shard_row \<Rightarrow> group_key" where
  "shard_key r = (sh_vehicle_id r, sh_group_type r, sh_table_no r, sh_group_code r)"

text \<open>
  \<open>pd.read_csv(config.CSV_OUTPUT, dtype=str).fillna('')\<close>: \<open>read_csv\<close> is called with
  its default \<open>na_values\<close>, so a cell whose text is one of the strings pandas takes for a
  missing value is read as \<open>NaN\<close>, which \<open>fillna('')\<close> turns into the empty string. Every
  other cell is read as the text that was written.
\<close>

definition pandas_na_values :: "string list" where
  "pandas_na_values =
     [[], ''#N/A'', ''#N/A N/A'', ''#NA'', ''-1.#IND'', ''-1.#QNAN'', ''-NaN'', ''-nan'',
      ''1.#IND'', ''1.#QNAN'', ''<NA>'', ''N/A'', ''NA'', ''NULL'', ''NaN'', ''None'', ''n/a'',
      ''nan'', ''null'']"

definition read_cell :: "string \<Rightarrow> string" where
  "read_cell c = (if c \<in> set pandas_na_values then [] else c)"

definition read_csv_row :: "shard_row \<Rightarrow> shard_row" where
  "read_csv_row r =
     \<lparr>sh_vehicle_id = read_cell (sh_vehicle_id r),
      sh_vehicle_name = read_cell (sh_vehicle_name r),
      sh_model_code = read_cell (sh_model_code r),
      sh_group_type = read_cell (sh_group_type r),
      sh_table_no = read_cell (sh_table_no r),
      sh_group_code = read_cell (sh_group_code r),
      sh_group_desc = read_cell (sh_group_desc r),
      sh_ref_no = read_cell (sh_ref_no r),
      sh_part_no = read_cell (sh_part_no r),
      sh_description = read_cell (sh_description r),
      sh_remark = read_cell (sh_remark r),
      sh_req_no = read_cell (sh_req_no r),
      sh_moq = read_cell (sh_moq r),
      sh_mrp = read_cell (sh_mrp r),
      sh_image_path = read_cell (sh_image_path r),
      sh_parts_page_url = read_cell (sh_parts_page_url r),
      sh_source_url = read_cell (sh_source_url r)\<rparr>"

text \<open>
  \<open>_overwrite_group_in_csv\<close>. The store holds the cells of the file as they were
  written. With a file present, the file is read back (\<open>existing\<close>); the mask compares the
  four group columns of every row read with those of \<open>df_group.iloc[0]\<close>, which raises
  \<open>IndexError\<close> on an empty frame; the rows outside the mask are kept, as read, and the
  frame is appended. Without a file the frame is written as it is.
\<close>

definition overwrite_group_in_csv :: "shard_row list \<Rightarrow> store \<Rightarrow> exn + store" where
  "overwrite_group_in_csv df_group s =
     (case csv_output s of
        Some written \<Rightarrow>
          (let existing = map read_csv_row written
           in case df_group of
                [] \<Rightarrow> Inl (IndexError ''single positional indexer is out-of-bounds'')
              | g0 # _ \<Rightarrow>
                  Inr (s\<lparr>csv_output :=
                         Some (filter (\<lambda>r. \<not> (sh_vehicle_id r = sh_vehicle_id g0 \<and>
                                               sh_group_type r = sh_group_type g0 \<and>
                                               sh_table_no r = sh_table_no g0 \<and>
                                               sh_group_code r = sh_group_code g0)) existing
                               @ df_group)\<rparr>))
      | None \<Rightarrow> Inr (s\<lparr>csv_output := Some df_group\<rparr>))"

text \<open>
  \<open>_overwrite_group_in_parquet\<close>: the same, inside \<open>try\<close>: a missing file and the
  \<open>IndexError\<close> of an empty frame both end in \<open>out = df_group\<close>. \<open>pd.read_parquet\<close>
  gives every cell back as it was written.
\<close>

definition overwrite_group_in_parquet :: "shard_row list \<Rightarrow> store \<Rightarrow> store" where
  "overwrite_group_in_parquet df_group s =
     (case parquet_output s of
        Some existing \<Rightarrow>
          (case df_group of
             [] \<Rightarrow> s\<lparr>parquet_output := Some df_group\<rparr>
           | g0 # _ \<Rightarrow>
               s\<lparr>parquet_output :=
                    Some (filter (\<lambda>r. \<not> (sh_vehicle_id r = sh_vehicle_id g0 \<and>
                                          sh_group_type r = sh_group_type g0 \<and>
                                          sh_table_no r = sh_table_no g0 \<and>
                                          sh_group_code r = sh_group_code g0)) existing
                          @ df_group)\<rparr>)
      | None \<Rightarrow> s\<lparr>parquet_output := Some df_group\<rparr>)"

text \<open>
  The three \<open>df_group.insert\<close> calls of \<open>append_parts_rows\<close>: a fetched row with
  \<open>vehicle_name\<close>, \<open>model_code\<close> and \<open>group_desc\<close> added.
\<close>

definition enrich :: "string \<Rightarrow> string \<Rightarrow> string \<Rightarrow> parts_row \<Rightarrow> shard_row" where
  "enrich vname mcode gdesc r =
     \<lparr>sh_vehicle_id = db_vehicle_id r, sh_vehicle_name = vname, sh_model_code = mcode,
      sh_group_type = db_group_type r, sh_table_no = db_table_no r,
      sh_group_code = db_group_code r, sh_group_desc = gdesc,
      sh_ref_no = db_ref_no r, sh_part_no = db_part_no r,
      sh_description = db_description r, sh_remark = db_remark r, sh_req_no = db_req_no r,
      sh_moq = db_moq r, sh_mrp = db_mrp r, sh_image_path = db_image_path r,
      sh_parts_page_url = db_parts_page_url r, sh_source_url = db_source_url r\<rparr>"

text \<open>
  \<open>vname\<close> and \<open>mcode\<close> fall back to the vehicle when \<open>dict_rows\<close> is empty;
  \<open>gdesc\<close> reads \<open>dict_rows[0]\<close> unguarded and raises \<open>IndexError\<close> then. The three are
  computed only for a frame that has rows.
\<close>

definition enrich_group ::
  "Vehicle \<Rightarrow> TableIndex \<Rightarrow> pydict list \<Rightarrow> parts_row list \<Rightarrow> exn + shard_row list" where
  "enrich_group vehicle table_index dict_rows df =
     (if df = [] then Inr []
      else case dict_rows of
             [] \<Rightarrow> Inl (IndexError ''list index out of range'')
           | d0 # _ \<Rightarrow>
               Inr (map (enrich (dict_get d0 ''vehicle_name'' (v_vehicle_name vehicle))
                                (dict_get d0 ''model_code'' (v_model_code vehicle))
                                (dict_get d0 ''group_desc'' (ti_group_desc table_index))) df))"

text \<open>The group a table index of a vehicle stands for.\<close>

definition group_of :: "Vehicle \<Rightarrow> TableIndex \<Rightarrow> group_key" where
  "group_of vehicle table_index =
     (v_vehicle_id vehicle, ti_group_type table_index, ti_table_no table_index,
      ti_group_code table_index)"

text \<open>
  \<open>append_parts_rows\<close>. An exception leaves the store as it stood when it was raised, so
  the error value carries that store.
\<close>

definition append_parts_rows ::
  "Vehicle \<Rightarrow> TableIndex \<Rightarrow> PartsPage option \<Rightarrow> PartRow list \<Rightarrow> bool \<Rightarrow> bool \<Rightarrow> store
     \<Rightarrow> (exn \<times> store) + (store \<times> nat)" where
  "append_parts_rows vehicle table_index parts_page part_rows write_csv save_parquet s =
     (case convert_parts_to_dict_list vehicle table_index parts_page part_rows of
        Inl e \<Rightarrow> Inl (e, s)
      | Inr dict_rows \<Rightarrow>
     (case upsert_part_rows dict_rows s of
        Inl e \<Rightarrow> Inl (e, s)
      | Inr (s1, upserted) \<Rightarrow>
          if write_csv \<or> save_parquet then
            (case enrich_group vehicle table_index dict_rows
                    (fetch_group_df (group_of vehicle table_index) s1) of
               Inl e \<Rightarrow> Inl (e, s1)
             | Inr df_group \<Rightarrow>
            (case (if write_csv then overwrite_group_in_csv df_group s1 else Inr s1) of
               Inl e \<Rightarrow> Inl (e, s1)
             | Inr s2 \<Rightarrow>
                 Inr (if save_parquet then overwrite_group_in_parquet df_group s2 else s2,
                      upserted)))
          else Inr (s1, upserted)))"

text \<open>The rows of an output file; none when the file does not exist.\<close>

definition existing_rows :: "shard_row list option \<Rightarrow> shard_row list" where
  "existing_rows f = (case f of None \<Rightarrow> [] | Some rows \<Rightarrow> rows)"

text \<open>
  The order of the read-back in elementary terms: an empty \<open>ref_no\<close> is behind every
  other one; two others are ordered by their integer cast, and by the raw text when the
  casts are equal.
\<close>

definition ref_before :: "string \<Rightarrow> string \<Rightarrow> bool" where
  "ref_before x y =
     (if x = [] then y = []
      else y = [] \<or> sqlite_cast_int x < sqlite_cast_int y \<or>
           (sqlite_cast_int x = sqlite_cast_int y \<and> x \<le> y))"

text \<open>
  The order as the specification words it: rows with a numeric \<open>ref_no\<close> first, every
  row whose \<open>ref_no\<close> is non-numeric or empty behind them.
\<close>

definition is_numeric :: "string \<Rightarrow> bool" where
  "is_numeric s = (s \<noteq> [] \<and> list_all is_digit s)"

definition spec_numeric_first :: "string list \<Rightarrow> bool" where
  "spec_numeric_first refs = (refs = filter is_numeric refs @ filter (\<lambda>r. \<not> is_numeric r) refs)"

section \<open>Example data\<close>

definition example_key :: group_key where
  "example_key = (''v1'', ''ENGINE'', ''E-1'', ''G1'')"

definition example_row :: "string \<Rightarrow> string \<Rightarrow> string \<Rightarrow> parts_row" where
  "example_row ref_no part_no description =
     \<lparr>db_vehicle_id = ''v1'', db_vehicle_name = None, db_model_code = None,
      db_group_type = ''ENGINE'', db_table_no = ''E-1'', db_group_code = ''G1'',
      db_group_desc = None, db_ref_no = ref_no, db_part_no = part_no,
      db_description = description, db_remark = [], db_req_no = [], db_moq = [], db_mrp = [],
      db_parts_page_url = [], db_image_path = [], db_source_url = [], db_created_at = None\<rparr>"

definition example_dict :: "string \<Rightarrow> string \<Rightarrow> string \<Rightarrow> pydict" where
  "example_dict ref_no part_no description =
     [(''vehicle_id'', ''v1''), (''group_type'', ''ENGINE''), (''table_no'', ''E-1''),
      (''group_code'', ''G1''), (''ref_no'', ref_no), (''part_no'', part_no),
      (''description'', description)]"

text \<open>A dict and a row with every column of the \<open>INSERT\<close>.\<close>

definition example_full_dict :: "string \<Rightarrow> string \<Rightarrow> string \<Rightarrow> string \<Rightarrow> pydict" where
  "example_full_dict ref_no part_no description mrp =
     example_dict ref_no part_no description @
     [(''remark'', ''std''), (''req_no'', ''2''), (''moq'', ''5''), (''mrp'', mrp),
      (''image_path'', ''img/E-1.png''), (''parts_page_url'', ''http://parts''),
      (''source_url'', ''http://catalog'')]"

definition example_full_row :: "string \<Rightarrow> string \<Rightarrow> string \<Rightarrow> string \<Rightarrow> parts_row" where
  "example_full_row ref_no part_no description mrp =
     (example_row ref_no part_no description)
       \<lparr>db_remark := ''std'', db_req_no := ''2'', db_moq := ''5'', db_mrp := mrp,
        db_parts_page_url := ''http://parts'', db_image_path := ''img/E-1.png'',
        db_source_url := ''http://catalog''\<rparr>"

definition example_vehicle :: Vehicle where
  "example_vehicle =
     \<lparr>v_vehicle_id = ''v1'', v_vehicle_name = ''V1'', v_model_code = ''M1'',
      v_source_url = ''http://catalog''\<rparr>"

definition example_index :: "string \<Rightarrow> string \<Rightarrow> string \<Rightarrow> TableIndex" where
  "example_index group_type table_no group_code =
     \<lparr>ti_vehicle_id = ''v1'', ti_group_type = group_type, ti_s_no = [], ti_table_no = table_no,
      ti_group_desc = ''Cylinder head'', ti_group_code = group_code, ti_variant = None,
      ti_aggregates_url = ''http://catalog''\<rparr>"

definition example_page :: "string \<Rightarrow> string \<Rightarrow> string \<Rightarrow> PartsPage" where
  "example_page group_type table_no group_code =
     \<lparr>pp_vehicle_id = ''v1'', pp_group_type = group_type, pp_table_no = table_no,
      pp_group_code = group_code, pp_parts_page_url = ''http://parts'', pp_image_path = None\<rparr>"

definition example_part :: "string \<Rightarrow> string \<Rightarrow> PartRow" where
  "example_part ref_no part_no =
     \<lparr>pr_vehicle_id = ''v1'', pr_group_type = ''ENGINE'', pr_table_no = ''E-1'',
      pr_group_code = ''G1'', pr_ref_no = ref_no, pr_part_no = part_no, pr_description = ''Bolt'',
      pr_remark = [], pr_req_no = ''1'', pr_moq = ''1'', pr_mrp = ''10.00''\<rparr>"

definition example_shard_row :: "string \<Rightarrow> string \<Rightarrow> string \<Rightarrow> shard_row" where
  "example_shard_row group_code ref_no part_no =
     \<lparr>sh_vehicle_id = ''v1'', sh_vehicle_name = ''V1'', sh_model_code = ''M1'',
      sh_group_type = ''ENGINE'', sh_table_no = ''E-1'', sh_group_code = group_code,
      sh_group_desc = ''Cylinder head'', sh_ref_no = ref_no, sh_part_no = part_no,
      sh_description = ''Bolt'', sh_remark = [], sh_req_no = ''1'', sh_moq = ''1'',
      sh_mrp = ''10.00'', sh_image_path = [], sh_parts_page_url = ''http://parts'',
      sh_source_url = ''http://catalog''\<rparr>"

definition five_rows :: "shard_row list" where
  "five_rows = [example_shard_row ''G1'' ''1'' ''P1'', example_shard_row ''G1'' ''2'' ''P2'',
                example_shard_row ''G1'' ''3'' ''P3'', example_shard_row ''G2'' ''1'' ''Q1'',
                example_shard_row ''G1'' ''4'' ''P4'', example_shard_row ''G1'' ''5'' ''P5'']"

text \<open>The same file for a group whose code is the text \<open>NA\<close>, and three part rows.\<close>

definition five_rows_NA :: "shard_row list" where
  "five_rows_NA = [example_shard_row ''NA'' ''1'' ''P1'', example_shard_row ''NA'' ''2'' ''P2'',
                   example_shard_row ''NA'' ''3'' ''P3'', example_shard_row ''G2'' ''1'' ''Q1'',
                   example_shard_row ''NA'' ''4'' ''P4'', example_shard_row ''NA'' ''5'' ''P5'']"

definition three_parts :: "PartRow list" where
  "three_parts = [example_part ''3'' ''P3'', example_part ''1'' ''P1'', example_part ''2'' ''P2'']"

section \<open>The collaborators of the pipeline\<close>

text \<open>
  \<open>aggregates.collect_indices\<close> and \<open>parts.collect_parts\<close> drive the browser. The
  pipeline sees their answers only: a result, or the exception raised. They are taken as
  functions of the arguments the pipeline passes.
\<close>

record extractor =
  collect_indices :: "Vehicle \<Rightarrow> exn + TableIndex list"
  collect_parts :: "Vehicle \<Rightarrow> TableIndex \<Rightarrow> exn + (PartsPage option \<times> PartRow list \<times> bool)"

text \<open>
  The pipeline calls two methods on its store that class \<open>DataStore\<close> does not define:
  \<open>is_vehicle_complete\<close> and \<open>mark_milestone\<close>. The class defines \<open>__init__\<close>,
  \<open>_init_database\<close>, \<open>checkpoint_status\<close>, \<open>checkpoint_mark_done\<close>,
  \<open>checkpoint_mark_error\<close>, \<open>checkpoint_mark_pending\<close>, \<open>save_vehicle\<close>, \<open>get_vehicles\<close>,
  \<open>save_parts_page\<close>, \<open>upsert_parts_page\<close>, \<open>upsert_part_rows\<close>, \<open>_fetch_group_df\<close>,
  \<open>_overwrite_group_in_csv\<close>, \<open>_overwrite_group_in_parquet\<close>, \<open>append_parts_rows\<close>,
  \<open>get_checkpoint_stats\<close>, \<open>write_parts_csv\<close>, \<open>write_parts_parquet\<close> and
  \<open>convert_parts_to_dict_list\<close>, has no base class and no \<open>__getattr__\<close>, and
  \<open>_init_database\<close> creates no table for milestones. Looking either name up on a
  \<open>DataStore\<close> raises \<open>AttributeError\<close>.
\<close>

definition no_attribute :: "string \<Rightarrow> exn" where
  "no_attribute name =
     AttributeError (CHR 0x27 # ''DataStore'' @ CHR 0x27 # '' object has no attribute '' @
                     CHR 0x27 # name @ [CHR 0x27])"

definition DataStore_is_vehicle_complete :: "string \<Rightarrow> nat \<Rightarrow> store \<Rightarrow> exn + bool" where
  "DataStore_is_vehicle_complete vehicle_id expected_groups s =
     Inl (no_attribute ''is_vehicle_complete'')"

definition mark_milestone :: "nat \<Rightarrow> string \<Rightarrow> store \<Rightarrow> exn + store" where
  "mark_milestone batch vehicle_id s = Inl (no_attribute ''mark_milestone'')"

section \<open>pipeline.py\<close>

text \<open>
  The lines the pipeline logs about its progress, as events. A group is named by its key,
  a vehicle by its id.
\<close>

datatype event =
    NoGroups string
  | SkipVehicleDone string nat
  | FoundGroups string nat
  | SkipDone group_key
  | Scraping group_key
  | Done group_key nat bool
  | ErrorScraping group_key string
  | FailedVehicle string string
  | MilestoneWarning nat string
  | MilestoneRecorded nat nat

text \<open>
  The fields of \<open>ScrapingPipeline\<close>. \<open>_milestone_every\<close> is assigned once, in
  \<open>__init__\<close>, and is a constant here.
\<close>

record pipeline =
  force_reprocess :: bool
  save_parquet :: bool
  store :: store
  total_vehicles_seen :: nat
  total_groups_seen :: nat
  total_groups_done :: nat
  total_groups_skipped :: nat
  total_groups_failed :: nat
  total_parts_rows :: nat
  total_images_saved :: nat
  vehicles_processed :: nat
  milestone_batch :: nat
  log :: "event list"

definition milestone_every :: nat where
  "milestone_every = 30"

text \<open>\<open>__init__\<close>: \<open>DataStore()\<close> opens the persistent state left by earlier runs.\<close>

definition new_pipeline :: "bool \<Rightarrow> bool \<Rightarrow> store \<Rightarrow> pipeline" where
  "new_pipeline force parquet s =
     \<lparr>force_reprocess = force, save_parquet = parquet, store = s,
      total_vehicles_seen = 0, total_groups_seen = 0, total_groups_done = 0,
      total_groups_skipped = 0, total_groups_failed = 0, total_parts_rows = 0,
      total_images_saved = 0, vehicles_processed = 0, milestone_batch = 0, log = []\<rparr>"

text \<open>
  \<open>_after_vehicle\<close>. The call of \<open>mark_milestone\<close> stands inside \<open>try\<close>; its exception
  is logged as a warning, and the line "milestone batch recorded" is logged either way.
\<close>

definition after_vehicle :: "string \<Rightarrow> pipeline \<Rightarrow> pipeline" where
  "after_vehicle vehicle_id p =
     (let p1 = p\<lparr>vehicles_processed := vehicles_processed p + 1\<rparr>
      in if vehicles_processed p1 mod milestone_every = 0 then
           (let p2 = p1\<lparr>milestone_batch := milestone_batch p1 + 1\<rparr>;
                p3 = (case mark_milestone (milestone_batch p2) vehicle_id (store p2) of
                        Inr s \<Rightarrow> p2\<lparr>store := s\<rparr>
                      | Inl e \<Rightarrow>
                          p2\<lparr>log := log p2 @ [MilestoneWarning (milestone_batch p2) (str_exn e)]\<rparr>)
            in p3\<lparr>log := log p3 @ [MilestoneRecorded (vehicles_processed p3) (milestone_batch p3)]\<rparr>)
         else p1)"

text \<open>
  The \<open>except\<close> branch of the group loop: \<open>_checkpoint_mark_error\<close>, which
  \<open>DataStore.checkpoint_mark_error\<close> answers.
\<close>

definition group_failed :: "group_key \<Rightarrow> exn \<Rightarrow> pipeline \<Rightarrow> pipeline" where
  "group_failed key e p =
     p\<lparr>store := checkpoint_mark_error key (str_exn e) (store p),
       total_groups_failed := total_groups_failed p + 1,
       log := log p @ [ErrorScraping key (str_exn e)]\<rparr>"

text \<open>
  The \<open>try\<close> block of the group loop behind the call of \<open>collect_parts\<close>, for the
  triple it returned: the page is saved, the rows (when there are any) are upserted and
  written, and the checkpoint is marked \<open>done\<close>. An exception on the way goes to the
  \<open>except\<close> branch.
\<close>

definition save_group ::
  "Vehicle \<Rightarrow> TableIndex \<Rightarrow> PartsPage option \<Rightarrow> PartRow list \<Rightarrow> bool \<Rightarrow> pipeline
     \<Rightarrow> pipeline" where
  "save_group vehicle ti parts_page part_rows image_saved p1 =
     (let key = group_of vehicle ti;
          p2 = (case parts_page of
                  None \<Rightarrow> p1
                | Some pg \<Rightarrow> p1\<lparr>store := save_parts_page pg (store p1)\<rparr>)
      in case (if part_rows \<noteq> []
               then append_parts_rows vehicle ti parts_page part_rows True
                      (save_parquet p2) (store p2)
               else Inr (store p2, 0)) of
           Inl (e, s) \<Rightarrow> group_failed key e (p2\<lparr>store := s\<rparr>)
         | Inr (s3, upserted) \<Rightarrow>
             p2\<lparr>store := checkpoint_mark_done key (length part_rows) image_saved s3,
                total_parts_rows :=
                  (if part_rows \<noteq> [] then total_parts_rows p2 + length part_rows
                   else total_parts_rows p2),
                total_images_saved :=
                  (if image_saved then total_images_saved p2 + 1
                   else total_images_saved p2),
                total_groups_done := total_groups_done p2 + 1,
                log := log p2 @ [Done key (length part_rows) image_saved]\<rparr>)"

text \<open>
  The body of the group loop, for one table index; \<open>res\<close> is what \<open>collect_parts\<close>
  answers for it. The wrappers \<open>_checkpoint_status\<close>, \<open>_checkpoint_mark_pending\<close>,
  \<open>_checkpoint_mark_done\<close> and \<open>_checkpoint_mark_error\<close> find the methods of the same
  names on the store and call them.
\<close>

definition process_group ::
  "Vehicle \<Rightarrow> TableIndex \<Rightarrow> exn + (PartsPage option \<times> PartRow list \<times> bool) \<Rightarrow> pipeline
     \<Rightarrow> pipeline" where
  "process_group vehicle ti res p =
     (let key = group_of vehicle ti
      in if checkpoint_status key (store p) = Some ''done'' \<and> \<not> force_reprocess p then
           p\<lparr>total_groups_skipped := total_groups_skipped p + 1,
             log := log p @ [SkipDone key]\<rparr>
         else
           (let p1 = p\<lparr>store := checkpoint_mark_pending key (store p),
                       log := log p @ [Scraping key]\<rparr>
            in case res of
                 Inl e \<Rightarrow> group_failed key e p1
               | Inr (parts_page, part_rows, image_saved) \<Rightarrow>
                   save_group vehicle ti parts_page part_rows image_saved p1))"

text \<open>The group loop: every index, in the order returned.\<close>

fun process_groups :: "extractor \<Rightarrow> Vehicle \<Rightarrow> TableIndex list \<Rightarrow> pipeline \<Rightarrow> pipeline" where
  "process_groups ext vehicle [] p = p"
| "process_groups ext vehicle (ti # rest) p =
     process_groups ext vehicle rest (process_group vehicle ti (collect_parts ext vehicle ti) p)"

text \<open>
  The body of the vehicle loop. \<open>ivc\<close> is what \<open>self.store.is_vehicle_complete\<close> answers;
  it is asked only when \<open>force_reprocess\<close> is off (\<open>and\<close> short-circuits). An exception
  of \<open>collect_indices\<close> or of the gate is caught by the vehicle's \<open>except\<close>, which logs
  it. \<open>_after_vehicle\<close> runs on every path. The answer of the gate is a parameter, so that
  what is proved of the loops holds for any store; the program runs with
  \<open>DataStore_is_vehicle_complete\<close>.
\<close>

definition process_vehicle ::
  "(string \<Rightarrow> nat \<Rightarrow> store \<Rightarrow> exn + bool) \<Rightarrow> extractor \<Rightarrow> Vehicle \<Rightarrow> pipeline \<Rightarrow> pipeline" where
  "process_vehicle ivc ext vehicle p =
     (case collect_indices ext vehicle of
        Inl e \<Rightarrow>
          after_vehicle (v_vehicle_id vehicle)
            (p\<lparr>log := log p @ [FailedVehicle (v_vehicle_id vehicle) (str_exn e)]\<rparr>)
      | Inr indices \<Rightarrow>
          if indices = [] then
            after_vehicle (v_vehicle_id vehicle)
              (p\<lparr>log := log p @ [NoGroups (v_vehicle_id vehicle)]\<rparr>)
          else
            (case (if force_reprocess p then Inr False
                   else ivc (v_vehicle_id vehicle) (length indices) (store p)) of
               Inl e \<Rightarrow>
                 after_vehicle (v_vehicle_id vehicle)
                   (p\<lparr>log := log p @ [FailedVehicle (v_vehicle_id vehicle) (str_exn e)]\<rparr>)
             | Inr True \<Rightarrow>
                 after_vehicle (v_vehicle_id vehicle)
                   (p\<lparr>log := log p @ [SkipVehicleDone (v_vehicle_id vehicle) (length indices)]\<rparr>)
             | Inr False \<Rightarrow>
                 after_vehicle (v_vehicle_id vehicle)
                   (process_groups ext vehicle indices
                      (p\<lparr>total_groups_seen := total_groups_seen p + length indices,
                         log := log p @ [FoundGroups (v_vehicle_id vehicle) (length indices)]\<rparr>))))"

fun process_vehicles ::
  "(string \<Rightarrow> nat \<Rightarrow> store \<Rightarrow> exn + bool) \<Rightarrow> extractor \<Rightarrow> Vehicle list \<Rightarrow> pipeline \<Rightarrow> pipeline" where
  "process_vehicles ivc ext [] p = p"
| "process_vehicles ivc ext (vehicle # rest) p =
     process_vehicles ivc ext rest (process_vehicle ivc ext vehicle p)"

section \<open>catalogue.py and run.py\<close>

text \<open>
  What the catalogue page answers to \<open>collect_vehicles\<close>: whether \<open>goto\<close> and
  \<open>wait_for_datatables\<close> raise, whether the table \<open>#datatable-t2\<close> is found, the
  pagination info (\<open>None\<close>: DataTables not detected; otherwise one visit per page, with
  what navigating to the page and extracting from it give), and the single-page
  extraction used without pagination. An item is the pair of \<open>name\<close> and \<open>modelCode\<close>
  of a card, either of which may be missing.
\<close>

type_synonym item = "string option \<times> string option"

record page_visit =
  page_navigate :: "exn option"
  page_items :: "exn + item list"

record catalog_page =
  goto_result :: "exn option"
  table_found :: bool
  datatables_ready :: "exn option"
  pagination_info :: "exn + page_visit list option"
  single_page :: "exn + item list"

text \<open>
  The loop over the pages: the first page is not navigated to; a page whose navigation or
  extraction raises is logged and left out.
\<close>

fun collect_pages :: "bool \<Rightarrow> page_visit list \<Rightarrow> item list" where
  "collect_pages first [] = []"
| "collect_pages first (pg # rest) =
     (if \<not> first \<and> page_navigate pg \<noteq> None then collect_pages False rest
      else case page_items pg of
             Inl e \<Rightarrow> collect_pages False rest
           | Inr page_vehicles \<Rightarrow> page_vehicles @ collect_pages False rest)"

text \<open>
  The conversion loop: items without a name or a model code, and repeated model codes, are
  left out. \<open>slugify\<close> is the library function behind \<open>slugify_name\<close>.
\<close>

fun to_vehicles :: "(string \<Rightarrow> string) \<Rightarrow> string \<Rightarrow> string list \<Rightarrow> item list \<Rightarrow> Vehicle list" where
  "to_vehicles slugify catalog_url seen_models [] = []"
| "to_vehicles slugify catalog_url seen_models ((n, m) # rest) =
     (let name = py_strip (py_or_empty n);
          model_code = py_strip (py_or_empty m)
      in if name = [] \<or> model_code = [] then to_vehicles slugify catalog_url seen_models rest
         else if model_code \<in> set seen_models then to_vehicles slugify catalog_url seen_models rest
         else \<lparr>v_vehicle_id = slugify name, v_vehicle_name = name, v_model_code = model_code,
               v_source_url = catalog_url\<rparr>
              # to_vehicles slugify catalog_url (model_code # seen_models) rest)"

text \<open>
  The items the function gathers: over all pages with pagination, from the page as it is
  without.
\<close>

definition vehicles_data :: "catalog_page \<Rightarrow> exn + item list" where
  "vehicles_data page =
     (case pagination_info page of
        Inl e \<Rightarrow> Inl e
      | Inr (Some pages) \<Rightarrow> Inr (collect_pages True pages)
      | Inr None \<Rightarrow> single_page page)"

definition collect_vehicles ::
  "(string \<Rightarrow> string) \<Rightarrow> catalog_page \<Rightarrow> string \<Rightarrow> exn + Vehicle list" where
  "collect_vehicles slugify page catalog_url =
     (case goto_result page of
        Some e \<Rightarrow> Inl e
      | None \<Rightarrow>
          if \<not> table_found page then Inl (Exception ''Main catalog table #datatable-t2 not found'')
          else
            (case datatables_ready page of
               Some e \<Rightarrow> Inl e
             | None \<Rightarrow>
                 (case vehicles_data page of
                    Inl e \<Rightarrow> Inl e
                  | Inr items \<Rightarrow>
                      if items = [] then Inl (Exception ''No vehicles found in catalog'')
                      else Inr (to_vehicles slugify catalog_url [] items))))"

text \<open>
  What a run meets outside the store: whether creating the session, the browser and the
  page raises, the catalogue page, the slug function, and the extractor.
\<close>

record world =
  launch :: "exn option"
  catalog :: catalog_page
  slugify :: "string \<Rightarrow> string"
  extractor :: extractor

text \<open>\<open>_collect_vehicles\<close>: the vehicles are counted and saved.\<close>

definition save_vehicles :: "Vehicle list \<Rightarrow> pipeline \<Rightarrow> pipeline" where
  "save_vehicles vs p =
     p\<lparr>total_vehicles_seen := length vs,
       store := foldl (\<lambda>s v. save_vehicle v s) (store p) vs\<rparr>"

text \<open>
  \<open>ScrapingPipeline.run\<close>: an exception of the start or of \<open>collect_vehicles\<close> leaves
  \<open>run\<close>; the error value carries the pipeline as it stood.
\<close>

definition run ::
  "(string \<Rightarrow> nat \<Rightarrow> store \<Rightarrow> exn + bool) \<Rightarrow> world \<Rightarrow> string \<Rightarrow> pipeline
     \<Rightarrow> (exn \<times> pipeline) + pipeline" where
  "run ivc w catalog_url p =
     (case launch w of
        Some e \<Rightarrow> Inl (e, p)
      | None \<Rightarrow>
          (case collect_vehicles (slugify w) (catalog w) catalog_url of
             Inl e \<Rightarrow> Inl (e, p)
           | Inr vs \<Rightarrow> Inr (process_vehicles ivc (extractor w) vs (save_vehicles vs p))))"

text \<open>
  \<open>main\<close> of \<open>run.py\<close>, for the command line \<open>--catalog-url URL [--force] [--parquet]\<close>:
  the exit code and the persistent state left. An exception of the run is logged as fatal
  and ends in \<open>sys.exit(1)\<close>; a run that returns ends with exit code 0.
\<close>

definition main ::
  "(string \<Rightarrow> nat \<Rightarrow> store \<Rightarrow> exn + bool) \<Rightarrow> world \<Rightarrow> string \<Rightarrow> bool \<Rightarrow> bool \<Rightarrow> store
     \<Rightarrow> nat \<times> store" where
  "main ivc w catalog_url force parquet s =
     (case run ivc w catalog_url (new_pipeline force parquet s) of
        Inl (e, p) \<Rightarrow> (1, store p)
      | Inr p \<Rightarrow> (0, store p))"

section \<open>Notions the results are stated in\<close>

text \<open>
  The groups a log shows as visited (skipped as done, or scraped) and as scraped, in order.
\<close>

fun visited :: "event list \<Rightarrow> group_key list" where
  "visited [] = []"
| "visited (SkipDone k # evs) = k # visited evs"
| "visited (Scraping k # evs) = k # visited evs"
| "visited (e # evs) = visited evs"

fun scraped :: "event list \<Rightarrow> group_key list" where
  "scraped [] = []"
| "scraped (Scraping k # evs) = k # scraped evs"
| "scraped (e # evs) = scraped evs"

text \<open>The batches whose milestone could not be written, and those logged as recorded.\<close>

fun milestone_warnings :: "event list \<Rightarrow> nat list" where
  "milestone_warnings [] = []"
| "milestone_warnings (MilestoneWarning b m # evs) = b # milestone_warnings evs"
| "milestone_warnings (e # evs) = milestone_warnings evs"

text \<open>A group whose checkpoint says \<open>done\<close> or \<open>error\<close>.\<close>

definition settled :: "group_key \<Rightarrow> store \<Rightarrow> bool" where
  "settled k s = (checkpoint_status k s = Some ''done'' \<or> checkpoint_status k s = Some ''error'')"

text \<open>Every group the extractor discovers for the vehicles has checkpoint status \<open>done\<close>.\<close>

definition groups_done :: "Vehicle \<Rightarrow> TableIndex list \<Rightarrow> store \<Rightarrow> bool" where
  "groups_done vehicle indices s =
     list_all (\<lambda>ti. checkpoint_status (group_of vehicle ti) s = Some ''done'') indices"

definition all_done :: "extractor \<Rightarrow> Vehicle list \<Rightarrow> store \<Rightarrow> bool" where
  "all_done ext vs s =
     list_all (\<lambda>v. case collect_indices ext v of
                      Inl e \<Rightarrow> True
                    | Inr indices \<Rightarrow> groups_done v indices s) vs"

text \<open>
  The columns of a row of \<open>parts\<close> beside its identity: the eight named by \<open>DO UPDATE SET\<close>,
  and the four no \<open>INSERT\<close> names.
\<close>

definition mutable_columns ::
  "parts_row \<Rightarrow> string \<times> string \<times> string \<times> string \<times> string \<times> string \<times> string \<times> string" where
  "mutable_columns r =
     (db_description r, db_remark r, db_req_no r, db_moq r, db_mrp r, db_image_path r,
      db_parts_page_url r, db_source_url r)"

definition unset_columns ::
  "parts_row \<Rightarrow> string option \<times> string option \<times> string option \<times> string option" where
  "unset_columns r = (db_vehicle_name r, db_model_code r, db_group_desc r, db_created_at r)"

text \<open>
  A table \<open>db'\<close> that is the table \<open>db\<close> with the rows \<open>ts\<close> merged in, in their order:
  identities are distinct; the rows of \<open>db\<close> stand where they stood, with their identity
  and their unset columns; behind them stand rows for the identities that are new, with the
  unset columns \<open>NULL\<close>; a row whose identity is not among \<open>ts\<close> is as it was in \<open>db\<close>,
  and any other row has the mutable columns of the last of \<open>ts\<close> with its identity.
\<close>

definition merged :: "parts_row list \<Rightarrow> parts_row list \<Rightarrow> parts_row list \<Rightarrow> bool" where
  "merged db ts db' =
     (distinct (map part_identity db')
      \<and> length db \<le> length db'
      \<and> set (map part_identity db') = set (map part_identity db) \<union> set (map part_identity ts)
      \<and> (\<forall>i < length db. part_identity (db' ! i) = part_identity (db ! i)
                          \<and> unset_columns (db' ! i) = unset_columns (db ! i))
      \<and> (\<forall>i. length db \<le> i \<and> i < length db' \<longrightarrow>
                unset_columns (db' ! i) = (None, None, None, None))
      \<and> (\<forall>i < length db'.
            case find (\<lambda>t. part_identity t = part_identity (db' ! i)) (rev ts) of
              None \<Rightarrow> i < length db \<and> db' ! i = db ! i
            | Some t \<Rightarrow> mutable_columns (db' ! i) = mutable_columns t))"

text \<open>
  The natural key of a row of an output file, and the stores without duplicate natural
  keys: in the table \<open>parts\<close> and in either output file.
\<close>

definition shard_identity ::
  "shard_row \<Rightarrow> string \<times> string \<times> string \<times> string \<times> string \<times> string" where
  "shard_identity r =
     (sh_vehicle_id r, sh_group_type r, sh_table_no r, sh_group_code r, sh_ref_no r, sh_part_no r)"

definition no_duplicates :: "store \<Rightarrow> bool" where
  "no_duplicates s =
     (distinct (map part_identity (parts s))
      \<and> distinct (map shard_identity (existing_rows (csv_output s)))
      \<and> distinct (map shard_identity (existing_rows (parquet_output s))))"

text \<open>The same of the table \<open>parts\<close> and the Parquet file alone.\<close>

definition no_duplicates_beside_csv :: "store \<Rightarrow> bool" where
  "no_duplicates_beside_csv s =
     (distinct (map part_identity (parts s))
      \<and> distinct (map shard_identity (existing_rows (parquet_output s))))"

section \<open>Example runs\<close>

text \<open>
  The scenario of the specification: vehicle \<open>V1\<close> with the groups
  \<open>(ENGINE, E-1, G1)\<close> and \<open>(FRAME, F-1, G2)\<close>, and two rows for \<open>G1\<close>.
\<close>

definition example_extractor :: extractor where
  "example_extractor =
     \<lparr>collect_indices =
        (\<lambda>v. Inr [example_index ''ENGINE'' ''E-1'' ''G1'', example_index ''FRAME'' ''F-1'' ''G2'']),
      collect_parts =
        (\<lambda>v ti. if ti_group_code ti = ''G1''
                then Inr (Some (example_page ''ENGINE'' ''E-1'' ''G1''),
                          [example_part ''1'' ''P1'', example_part ''2'' ''P2''], False)
                else Inr (Some (example_page ''FRAME'' ''F-1'' ''G2''), [], False))\<rparr>"

definition example_catalog :: catalog_page where
  "example_catalog =
     \<lparr>goto_result = None, table_found = True, datatables_ready = None,
      pagination_info = Inr None, single_page = Inr [(Some ''V1'', Some ''M1'')]\<rparr>"

definition example_world :: world where
  "example_world =
     \<lparr>launch = None, catalog = example_catalog,
      slugify = (\<lambda>name. if name = ''V1'' then ''v1'' else name),
      extractor = example_extractor\<rparr>"

text \<open>
  The same vehicle and groups, with two rows for \<open>G1\<close> whose reference numbers are the
  texts \<open>NA\<close> and \<open>N/A\<close>, and one row for \<open>G2\<close>.
\<close>

definition na_extractor :: extractor where
  "na_extractor =
     \<lparr>collect_indices =
        (\<lambda>v. Inr [example_index ''ENGINE'' ''E-1'' ''G1'', example_index ''FRAME'' ''F-1'' ''G2'']),
      collect_parts =
        (\<lambda>v ti. if ti_group_code ti = ''G1''
                then Inr (Some (example_page ''ENGINE'' ''E-1'' ''G1''),
                          [example_part ''NA'' ''P1'', example_part ''N/A'' ''P1''], False)
                else Inr (Some (example_page ''FRAME'' ''F-1'' ''G2''),
                          [example_part ''1'' ''Q1''], False))\<rparr>"

definition na_world :: world where
  "na_world = example_world\<lparr>extractor := na_extractor\<rparr>"

text \<open>The CSV file a forced run of that world writes, starting without one.\<close>

definition na_csv :: "shard_row list" where
  "na_csv = [example_shard_row ''G1'' [] ''P1'', example_shard_row ''G1'' [] ''P1'',
             (example_shard_row ''G2'' ''1'' ''Q1'')
               \<lparr>sh_group_type := ''FRAME'', sh_table_no := ''F-1''\<rparr>]"

text \<open>Three groups, of which the second cannot be extracted.\<close>

definition failing_extractor :: extractor where
  "failing_extractor =
     \<lparr>collect_indices =
        (\<lambda>v. Inr [example_index ''ENGINE'' ''E-1'' ''G1'', example_index ''ENGINE'' ''E-2'' ''G2'',
                  example_index ''FRAME'' ''F-1'' ''G3'']),
      collect_parts =
        (\<lambda>v ti. if ti_group_code ti = ''G2'' then Inl (Exception ''Parts UI not found for G2'')
                else Inr (Some (example_page (ti_group_type ti) (ti_table_no ti) (ti_group_code ti)),
                          [], True))\<rparr>"

text \<open>Sixty-one vehicles with ids \<open>v\<close>, \<open>vv\<close>, \<open>vvv\<close> and so on.\<close>

definition example_fleet :: "Vehicle list" where
  "example_fleet = map (\<lambda>n. example_vehicle\<lparr>v_vehicle_id := replicate n CHR ''v''\<rparr>) [1..<62]"

section \<open>Results: group-type inference\<close>

lemma upper_E: "py_upper_char c = [CHR ''E''] \<longleftrightarrow> c = CHR ''e'' \<or> c = CHR ''E''"
  by (auto simp: py_upper_char_def lower_letters_def upper_letters_def split: if_splits)

lemma upper_F: "py_upper_char c = [CHR ''F''] \<longleftrightarrow> c = CHR ''f'' \<or> c = CHR ''F''"
  by (auto simp: py_upper_char_def lower_letters_def upper_letters_def split: if_splits)

lemma upper_hyphen: "py_upper_char c = [CHR ''-''] \<longleftrightarrow> c = CHR ''-''"
  by (auto simp: py_upper_char_def lower_letters_def upper_letters_def split: if_splits)

lemma upper_shape: "py_upper_char c = ''SS'' \<or> (\<exists>u. py_upper_char c = [u])"
  by (simp add: py_upper_char_def split: option.splits)

lemma hyphen_not_space: "\<not> py_isspace CHR ''-''"
  by (simp add: py_isspace_def)

lemma rstrip_keeps_two:
  "\<not> P b \<Longrightarrow> rev (dropWhile P (rev (a # b # r))) = a # b # rev (dropWhile P (rev r))"
  by (simp add: dropWhile_append)

lemma rstrip_prefix: "\<exists>ws. xs = rev (dropWhile P (rev xs)) @ ws"
proof -
  have "rev (dropWhile P (rev xs)) @ rev (takeWhile P (rev xs)) =
        rev (takeWhile P (rev xs) @ dropWhile P (rev xs))"
    by (simp only: rev_append)
  also have "\<dots> = xs"
    by (simp only: takeWhile_dropWhile_id rev_rev_ident)
  finally have "xs = rev (dropWhile P (rev xs)) @ rev (takeWhile P (rev xs))"
    by (rule sym)
  then show ?thesis ..
qed

text \<open>
  An upper-cased string that begins with a character other than \<open>S\<close> begins with the
  capital of its first character, which is a single character.
\<close>

lemma upper_first:
  assumes "take (Suc 0) (concat (map py_upper_char r)) = [U]" and "U \<noteq> CHR ''S''"
  obtains x r' where "r = x # r'" and "py_upper_char x = [U]"
proof (cases r)
  case Nil
  with assms show ?thesis by simp
next
  case (Cons x r')
  from upper_shape [of x] assms Cons have "py_upper_char x = [U]"
    by auto
  with Cons that show ?thesis by blast
qed

text \<open>
  Stripping and upper-casing a token and testing for the prefix \<open>X-\<close> is the same as
  looking, behind the token's leading whitespace, for \<open>x\<close> or \<open>X\<close> and a hyphen: the
  hyphen is not whitespace, so stripping the right end never reaches it.
\<close>

lemma startswith_normalised:
  assumes up: "\<And>c. py_upper_char c = [U] \<longleftrightarrow> c = lo \<or> c = U" and nS: "U \<noteq> CHR ''S''"
  shows "startswith (py_upper (py_strip s)) [U, CHR ''-''] \<longleftrightarrow> token_starts lo U s"
proof
  let ?t = "dropWhile py_isspace s"
  let ?r = "rev (dropWhile py_isspace (rev ?t))"
  assume "startswith (py_upper (py_strip s)) [U, CHR ''-'']"
  then have tk: "take (Suc (Suc 0)) (concat (map py_upper_char ?r)) = [U, CHR ''-'']"
    by (simp add: startswith_def py_upper_def py_strip_def)
  have "take (Suc 0) (take (Suc (Suc 0)) (concat (map py_upper_char ?r))) = [U]"
    unfolding tk by simp
  then have "take (Suc 0) (concat (map py_upper_char ?r)) = [U]"
    by simp
  then obtain x r' where r: "?r = x # r'" and x: "py_upper_char x = [U]"
    using nS by (rule upper_first)
  from tk have "take (Suc 0) (concat (map py_upper_char r')) = [CHR ''-'']"
    unfolding r by (simp add: x)
  then obtain y r'' where r': "r' = y # r''" and y: "py_upper_char y = [CHR ''-'']"
    by (rule upper_first) simp
  obtain ws where "?t = ?r @ ws"
    using rstrip_prefix by blast
  with r r' have "?t = x # y # (r'' @ ws)"
    by simp
  with x y show "token_starts lo U s"
    by (simp add: token_starts_def up upper_hyphen)
next
  let ?t = "dropWhile py_isspace s"
  assume "token_starts lo U s"
  then obtain a r where t: "?t = a # CHR ''-'' # r" and a: "a = lo \<or> a = U"
    by (auto simp: token_starts_def split: list.splits)
  have "rev (dropWhile py_isspace (rev ?t)) = a # CHR ''-'' # rev (dropWhile py_isspace (rev r))"
    unfolding t by (rule rstrip_keeps_two) (rule hyphen_not_space)
  moreover have "py_upper_char a = [U]"
    using a up [of a] by simp
  moreover have "py_upper_char CHR ''-'' = [CHR ''-'']"
    by (simp add: upper_hyphen)
  ultimately show "startswith (py_upper (py_strip s)) [U, CHR ''-'']"
    by (simp add: startswith_def py_upper_def py_strip_def)
qed

text \<open>
  Claim C10, as the code has it. \<open>infer_group_type\<close> is a total function of its three
  arguments. Each token is stripped of surrounding whitespace and then upper-cased
  before it is tested: the result is \<open>ENGINE\<close> when the table number or the group code,
  so normalised, starts with \<open>E-\<close> (this test comes first), otherwise \<open>FRAME\<close> when one
  of them starts with \<open>F-\<close>, otherwise the fallback. On the raw token the test means
  that, behind its leading whitespace, the token begins with the letter in either case
  and a hyphen. So a fallback among \<open>ENGINE\<close> and \<open>FRAME\<close> gives a result among the two.
\<close>

theorem infer_group_type_cases:
  "infer_group_type table_no group_code fallback =
     (if startswith (py_upper (py_strip (py_or_empty table_no))) ''E-'' \<or>
         startswith (py_upper (py_strip (py_or_empty group_code))) ''E-'' then ''ENGINE''
      else if startswith (py_upper (py_strip (py_or_empty table_no))) ''F-'' \<or>
              startswith (py_upper (py_strip (py_or_empty group_code))) ''F-'' then ''FRAME''
      else fallback)
   \<and> (\<forall>s. startswith (py_upper (py_strip s)) ''E-'' = token_starts CHR ''e'' CHR ''E'' s)
   \<and> (\<forall>s. startswith (py_upper (py_strip s)) ''F-'' = token_starts CHR ''f'' CHR ''F'' s)
   \<and> (fallback \<in> {''ENGINE'', ''FRAME''} \<longrightarrow>
        infer_group_type table_no group_code fallback \<in> {''ENGINE'', ''FRAME''})"
proof -
  have E: "\<And>s. startswith (py_upper (py_strip s)) ''E-'' \<longleftrightarrow> token_starts CHR ''e'' CHR ''E'' s"
    by (rule startswith_normalised) (rule upper_E, simp)
  have F: "\<And>s. startswith (py_upper (py_strip s)) ''F-'' \<longleftrightarrow> token_starts CHR ''f'' CHR ''F'' s"
    by (rule startswith_normalised) (rule upper_F, simp)
  have "infer_group_type table_no group_code fallback =
     (if startswith (py_upper (py_strip (py_or_empty table_no))) ''E-'' \<or>
         startswith (py_upper (py_strip (py_or_empty group_code))) ''E-'' then ''ENGINE''
      else if startswith (py_upper (py_strip (py_or_empty table_no))) ''F-'' \<or>
              startswith (py_upper (py_strip (py_or_empty group_code))) ''F-'' then ''FRAME''
      else fallback)"
    by (simp add: infer_group_type_def Let_def)
  moreover have "fallback \<in> {''ENGINE'', ''FRAME''} \<longrightarrow>
        infer_group_type table_no group_code fallback \<in> {''ENGINE'', ''FRAME''}"
    by (simp add: infer_group_type_def Let_def)
  ultimately show ?thesis
    using E F by blast
qed

theorem infer_group_type_cases_witness:
  "''FRAME'' \<in> {''ENGINE'', ''FRAME''}
   \<and> infer_group_type (Some '' e-12 '') (Some ''G7'') ''FRAME'' = ''ENGINE''
   \<and> infer_group_type (Some ''12'') (Some ''f-3_XOOM'') ''ENGINE'' = ''FRAME''
   \<and> infer_group_type (Some ''12'') None ''FRAME'' \<in> {''ENGINE'', ''FRAME''}"
  using infer_group_type_cases [of "Some ''12''" None "''FRAME''"]
  by (simp add: infer_group_type_def py_upper_def py_strip_def py_isspace_def
      py_upper_char_def lower_letters_def upper_letters_def startswith_def)

text \<open>
  The claim as worded tests the upper-cased token without stripping it. With a leading
  blank the two differ: \<open>" E-1"\<close> upper-cased starts with neither \<open>E-\<close> nor \<open>F-\<close>, so
  the worded rule gives the fallback \<open>FRAME\<close>, and the code answers \<open>ENGINE\<close>.
\<close>

theorem infer_group_type_unstripped_counterexample:
  "infer_group_type (Some '' E-1'') (Some []) ''FRAME'' \<noteq>
     (if startswith (py_upper '' E-1'') ''E-'' \<or> startswith (py_upper []) ''E-'' then ''ENGINE''
      else if startswith (py_upper '' E-1'') ''F-'' \<or> startswith (py_upper []) ''F-'' then ''FRAME''
      else ''FRAME'')"
  by (simp add: infer_group_type_def py_upper_def py_strip_def py_isspace_def
      py_upper_char_def lower_letters_def upper_letters_def startswith_def)

section \<open>Results: reading a group back\<close>

lemma ref_sort_key_le: "ref_sort_key x \<le> ref_sort_key y \<longleftrightarrow> ref_before x y"
  by (auto simp: ref_sort_key_def ref_before_def less_eq_prod_def less_prod_def)

lemma pair_le_fst:
  fixes a c :: "'a::linorder" and b d :: "'b::linorder"
  shows "(a, b) \<le> (c, d) \<Longrightarrow> a \<le> c"
  by (auto simp: less_eq_prod_def)

text \<open>
  Claim C5, as the code has it. The rows read back for a group are the group's rows of the
  table, ordered by the integer cast of \<open>ref_no\<close> ascending, with the rows whose
  \<open>ref_no\<close> is empty behind all others, and by the raw \<open>ref_no\<close> among equal casts.
  A \<open>ref_no\<close> that is not empty and not a number is cast like any text: to its leading
  integer, or to 0.
\<close>

theorem fetch_group_df_order:
  "sorted_wrt (\<lambda>a b. ref_before (db_ref_no a) (db_ref_no b)) (fetch_group_df key s)
   \<and> mset (fetch_group_df key s) = mset (filter (in_group key) (parts s))"
proof -
  let ?k = "\<lambda>r. (ref_sort_key (db_ref_no r), db_part_no r)"
  have "sorted (map ?k (fetch_group_df key s))"
    unfolding fetch_group_df_def by (rule sorted_sort_key)
  then have "sorted_wrt (\<lambda>a b. ?k a \<le> ?k b) (fetch_group_df key s)"
    by (simp only: sorted_map)
  then have "sorted_wrt (\<lambda>a b. ref_sort_key (db_ref_no a) \<le> ref_sort_key (db_ref_no b))
               (fetch_group_df key s)"
    by (rule sorted_wrt_mono_rel [rotated]) (rule pair_le_fst)
  then show ?thesis
    by (simp add: ref_sort_key_le fetch_group_df_def)
qed

text \<open>
  The claim puts every non-numeric \<open>ref_no\<close> behind the numeric ones. The cast of
  \<open>A\<close> is 0, so the row with \<open>ref_no = A\<close> is read back before the row with
  \<open>ref_no = 1\<close>.
\<close>

theorem fetch_group_df_nonnumeric_counterexample:
  "\<not> spec_numeric_first
       (map db_ref_no
          (fetch_group_df example_key
             (empty_store\<lparr>parts := [example_row ''1'' ''P1'' [], example_row ''A'' ''P2'' []]\<rparr>)))"
  by (simp add: fetch_group_df_def in_group_def example_row_def example_key_def empty_store_def
      ref_sort_key_def sqlite_cast_int_def sqlite_isspace_def is_digit_def digits_value_def
      digit_value_def Let_def spec_numeric_first_def is_numeric_def)

section \<open>Results: UPSERT of part rows\<close>

lemma identity_do_update: "part_identity (do_update r t) = part_identity r"
  by (simp add: part_identity_def do_update_def)

lemma identities_upsert_row:
  "map part_identity (upsert_row t db) =
     (if part_identity t \<in> set (map part_identity db) then map part_identity db
      else map part_identity db @ [part_identity t])"
  by (induction db) (auto simp: identity_do_update)

lemma distinct_upsert_row:
  "distinct (map part_identity db) \<Longrightarrow> distinct (map part_identity (upsert_row t db))"
  by (simp add: identities_upsert_row)

lemma upsert_row_absent:
  "part_identity t \<notin> set (map part_identity db) \<Longrightarrow> upsert_row t db = db @ [t]"
  by (induction db) auto

lemma upsert_row_present:
  "distinct (map part_identity db) \<Longrightarrow> i < length db \<Longrightarrow>
   part_identity (db ! i) = part_identity t \<Longrightarrow>
   upsert_row t db = db[i := do_update (db ! i) t]"
proof (induction db arbitrary: i)
  case Nil
  then show ?case by simp
next
  case (Cons r rs)
  show ?case
  proof (cases i)
    case 0
    with Cons.prems show ?thesis by simp
  next
    case (Suc j)
    with Cons.prems have j: "j < length rs" "part_identity (rs ! j) = part_identity t"
      by simp_all
    then have "part_identity t \<in> set (map part_identity rs)"
      by (metis length_map nth_map nth_mem)
    with Cons.prems have "part_identity r \<noteq> part_identity t"
      by auto
    moreover have "upsert_row t rs = rs[j := do_update (rs ! j) t]"
      using Cons.IH [of j] Cons.prems j by simp
    ultimately show ?thesis
      using Suc by simp
  qed
qed

lemma upsert_part_rows_count:
  "upsert_part_rows ds s = Inr (s', n) \<Longrightarrow> n = length ds"
  by (auto simp: upsert_part_rows_def split: if_splits sum.splits)

lemma identity_index:
  assumes "distinct (map part_identity db)" and "i < length db" and "j < length db"
      and "part_identity (db ! i) = part_identity (db ! j)"
  shows "i = j"
  using assms nth_eq_iff_index_eq [of "map part_identity db" i j] by simp

lemma upsert_row_cases:
  assumes d: "distinct (map part_identity db)"
  obtains (update) j where "j < length db" and "part_identity (db ! j) = part_identity t"
      and "upsert_row t db = db[j := do_update (db ! j) t]"
  | (insert) "part_identity t \<notin> set (map part_identity db)" and "upsert_row t db = db @ [t]"
proof (cases "part_identity t \<in> set (map part_identity db)")
  case True
  then obtain j where j: "j < length db" "part_identity (db ! j) = part_identity t"
    by (auto simp: in_set_conv_nth)
  from d j have "upsert_row t db = db[j := do_update (db ! j) t]"
    by (rule upsert_row_present)
  with j show ?thesis
    by (rule update)
next
  case False
  then have "upsert_row t db = db @ [t]"
    by (rule upsert_row_absent)
  with False show ?thesis
    by (rule insert)
qed

lemma columns_do_update:
  "mutable_columns (do_update r t) = mutable_columns t"
  "unset_columns (do_update r t) = unset_columns r"
  by (simp_all add: mutable_columns_def unset_columns_def do_update_def)

lemma merged_start: "distinct (map part_identity db) \<Longrightarrow> merged db [] db"
  by (auto simp: merged_def)

text \<open>One more row merged in, where a stored row has its identity.\<close>

lemma merged_update:
  assumes m: "merged db ts db'"
      and j: "j < length db'" "part_identity (db' ! j) = part_identity t"
  shows "merged db (ts @ [t]) (db'[j := do_update (db' ! j) t])"
proof -
  let ?db = "db'[j := do_update (db' ! j) t]"
  from m have d': "distinct (map part_identity db')"
    and len: "length db \<le> length db'"
    and ids: "set (map part_identity db') = set (map part_identity db) \<union> set (map part_identity ts)"
    and old: "\<And>i. i < length db \<Longrightarrow> part_identity (db' ! i) = part_identity (db ! i)
                          \<and> unset_columns (db' ! i) = unset_columns (db ! i)"
    and new: "\<And>i. length db \<le> i \<Longrightarrow> i < length db' \<Longrightarrow>
                unset_columns (db' ! i) = (None, None, None, None)"
    and cols: "\<And>i. i < length db' \<Longrightarrow>
            (case find (\<lambda>t. part_identity t = part_identity (db' ! i)) (rev ts) of
              None \<Rightarrow> i < length db \<and> db' ! i = db ! i
            | Some t \<Rightarrow> mutable_columns (db' ! i) = mutable_columns t)"
    by (simp_all add: merged_def)
  have idm: "map part_identity ?db = map part_identity db'"
    using j by (simp add: map_update identity_do_update list_update_same_conv)
  have nth_id: "part_identity (?db ! i) = part_identity (db' ! i)" if "i < length db'" for i
    using that j by (cases "i = j") (simp_all add: identity_do_update)
  have nth_un: "unset_columns (?db ! i) = unset_columns (db' ! i)" if "i < length db'" for i
    using that by (cases "i = j") (simp_all add: columns_do_update)
  have "part_identity t \<in> set (map part_identity db')"
    using j by (metis length_map nth_map nth_mem)
  then have ids': "set (map part_identity ?db) =
                     set (map part_identity db) \<union> set (map part_identity (ts @ [t]))"
    unfolding idm using ids by auto
  have cols': "(case find (\<lambda>u. part_identity u = part_identity (?db ! i)) (rev (ts @ [t])) of
              None \<Rightarrow> i < length db \<and> ?db ! i = db ! i
            | Some u \<Rightarrow> mutable_columns (?db ! i) = mutable_columns u)"
    if i: "i < length ?db" for i
  proof (cases "i = j")
    case True
    with j show ?thesis
      by (simp add: identity_do_update columns_do_update)
  next
    case False
    from i have i': "i < length db'"
      by simp
    have "part_identity (db' ! i) \<noteq> part_identity t"
      using identity_index [OF d' i' j(1)] j(2) False by auto
    then have "part_identity t \<noteq> part_identity (db' ! i)"
      by (rule not_sym)
    with cols [OF i'] False show ?thesis
      by (auto split: option.splits)
  qed
  show ?thesis
    unfolding merged_def
  proof (intro conjI allI impI)
    show "distinct (map part_identity ?db)"
      unfolding idm by (rule d')
    show "length db \<le> length ?db"
      using len by simp
    show "set (map part_identity ?db) =
            set (map part_identity db) \<union> set (map part_identity (ts @ [t]))"
      by (rule ids')
    show "part_identity (?db ! i) = part_identity (db ! i)" if "i < length db" for i
      using that len old [of i] nth_id [of i] by simp
    show "unset_columns (?db ! i) = unset_columns (db ! i)" if "i < length db" for i
      using that len old [of i] nth_un [of i] by simp
    show "unset_columns (?db ! i) = (None, None, None, None)"
      if "length db \<le> i \<and> i < length ?db" for i
      using that new [of i] nth_un [of i] by simp
    show "(case find (\<lambda>u. part_identity u = part_identity (?db ! i)) (rev (ts @ [t])) of
              None \<Rightarrow> i < length db \<and> ?db ! i = db ! i
            | Some u \<Rightarrow> mutable_columns (?db ! i) = mutable_columns u)"
      if "i < length ?db" for i
      using that by (rule cols')
  qed
qed

text \<open>One more row merged in, where no stored row has its identity.\<close>

lemma merged_insert:
  assumes m: "merged db ts db'"
      and t: "part_identity t \<notin> set (map part_identity db')"
      and n: "unset_columns t = (None, None, None, None)"
  shows "merged db (ts @ [t]) (db' @ [t])"
proof -
  from m have d': "distinct (map part_identity db')"
    and len: "length db \<le> length db'"
    and ids: "set (map part_identity db') = set (map part_identity db) \<union> set (map part_identity ts)"
    and old: "\<And>i. i < length db \<Longrightarrow> part_identity (db' ! i) = part_identity (db ! i)
                          \<and> unset_columns (db' ! i) = unset_columns (db ! i)"
    and new: "\<And>i. length db \<le> i \<Longrightarrow> i < length db' \<Longrightarrow>
                unset_columns (db' ! i) = (None, None, None, None)"
    and cols: "\<And>i. i < length db' \<Longrightarrow>
            (case find (\<lambda>t. part_identity t = part_identity (db' ! i)) (rev ts) of
              None \<Rightarrow> i < length db \<and> db' ! i = db ! i
            | Some t \<Rightarrow> mutable_columns (db' ! i) = mutable_columns t)"
    by (simp_all add: merged_def)
  have cols': "(case find (\<lambda>u. part_identity u = part_identity ((db' @ [t]) ! i)) (rev (ts @ [t])) of
              None \<Rightarrow> i < length db \<and> (db' @ [t]) ! i = db ! i
            | Some u \<Rightarrow> mutable_columns ((db' @ [t]) ! i) = mutable_columns u)"
    if i: "i < length (db' @ [t])" for i
  proof (cases "i < length db'")
    case True
    then have "part_identity (db' ! i) \<in> set (map part_identity db')"
      by simp
    with t have "part_identity t \<noteq> part_identity (db' ! i)"
      by metis
    with cols [OF True] True show ?thesis
      by (auto simp: nth_append split: option.splits)
  next
    case False
    with i have "i = length db'"
      by simp
    then show ?thesis
      by simp
  qed
  show ?thesis
    unfolding merged_def
  proof (intro conjI allI impI)
    show "distinct (map part_identity (db' @ [t]))"
      using d' t by simp
    show "length db \<le> length (db' @ [t])"
      using len by simp
    show "set (map part_identity (db' @ [t])) =
            set (map part_identity db) \<union> set (map part_identity (ts @ [t]))"
      using ids by auto
    show "part_identity ((db' @ [t]) ! i) = part_identity (db ! i)" if "i < length db" for i
      using that len old [of i] by (simp add: nth_append)
    show "unset_columns ((db' @ [t]) ! i) = unset_columns (db ! i)" if "i < length db" for i
      using that len old [of i] by (simp add: nth_append)
    show "unset_columns ((db' @ [t]) ! i) = (None, None, None, None)"
      if "length db \<le> i \<and> i < length (db' @ [t])" for i
      using that new [of i] n by (cases "i < length db'") (simp_all add: nth_append)
    show "(case find (\<lambda>u. part_identity u = part_identity ((db' @ [t]) ! i)) (rev (ts @ [t])) of
              None \<Rightarrow> i < length db \<and> (db' @ [t]) ! i = db ! i
            | Some u \<Rightarrow> mutable_columns ((db' @ [t]) ! i) = mutable_columns u)"
      if "i < length (db' @ [t])" for i
      using that by (rule cols')
  qed
qed

text \<open>The loop of \<open>executemany\<close> merges the rows of the batch into the table.\<close>

lemma merged_foldl:
  assumes d: "distinct (map part_identity db)"
      and n: "\<forall>t \<in> set ts. unset_columns t = (None, None, None, None)"
  shows "merged db ts (foldl (\<lambda>db t. upsert_row t db) db ts)"
  using n
proof (induction ts rule: rev_induct)
  case Nil
  from d show ?case
    by (simp add: merged_start)
next
  case (snoc t ts)
  let ?db' = "foldl (\<lambda>db t. upsert_row t db) db ts"
  from snoc have m: "merged db ts ?db'" and n: "unset_columns t = (None, None, None, None)"
    by simp_all
  from m have d': "distinct (map part_identity ?db')"
    by (simp add: merged_def)
  from d' show ?case
  proof (cases rule: upsert_row_cases [where t = t])
    case (update j)
    from merged_update [OF m update(1,2)] update(3) show ?thesis
      by simp
  next
    case insert
    from merged_insert [OF m insert(1) n] insert(2) show ?thesis
      by simp
  qed
qed

lemma insert_params_columns:
  assumes "insert_params d = Inr t"
  shows "dict_item d ''vehicle_id'' = Inr (db_vehicle_id t)
       \<and> dict_item d ''group_type'' = Inr (db_group_type t)
       \<and> dict_item d ''table_no'' = Inr (db_table_no t)
       \<and> dict_item d ''group_code'' = Inr (db_group_code t)
       \<and> db_ref_no t = dict_get d ''ref_no'' []
       \<and> db_part_no t = dict_get d ''part_no'' []
       \<and> db_description t = dict_get d ''description'' []
       \<and> db_remark t = dict_get d ''remark'' []
       \<and> db_req_no t = dict_get d ''req_no'' []
       \<and> db_moq t = dict_get d ''moq'' []
       \<and> db_mrp t = dict_get d ''mrp'' []
       \<and> db_image_path t = dict_get d ''image_path'' []
       \<and> db_parts_page_url t = dict_get d ''parts_page_url'' []
       \<and> db_source_url t = dict_get d ''source_url'' []
       \<and> unset_columns t = (None, None, None, None)"
  using assms by (auto simp: insert_params_def unset_columns_def split: sum.splits)

lemma all_params_nth:
  "all_params ds = Inr ts \<Longrightarrow>
   length ts = length ds \<and> (\<forall>j < length ds. insert_params (ds ! j) = Inr (ts ! j))"
proof (induction ds arbitrary: ts)
  case Nil
  then show ?case by simp
next
  case (Cons d ds)
  from Cons.prems obtain t ts' where t: "insert_params d = Inr t"
    and ts': "all_params ds = Inr ts'" and ts: "ts = t # ts'"
    by (auto split: sum.splits)
  from Cons.IH [OF ts'] have "length ts' = length ds"
    and "\<And>j. j < length ds \<Longrightarrow> insert_params (ds ! j) = Inr (ts' ! j)"
    by simp_all
  with t show ?case
    unfolding ts by (auto simp: nth_Cons split: nat.splits)
qed

text \<open>
  Claim C4. \<open>upsert_part_rows\<close> on the empty list returns 0 and leaves the store alone;
  a call that returns, returns the number of rows submitted. Let a batch of dicts be
  submitted, each of which has the four group keys, to a table whose rows have distinct
  identities. Every dict gives one parameter row: its identity from the keys
  \<open>vehicle_id\<close>, \<open>group_type\<close>, \<open>table_no\<close>, \<open>group_code\<close>, \<open>ref_no\<close> and \<open>part_no\<close>, its
  eight other columns from the keys of their names (the empty string for a missing key).
  The call returns the length of the batch and changes the table \<open>parts\<close> only.
  Afterwards identities are still distinct, and they are those stored before and those
  submitted: a submitted identity that was stored makes no second row, so a batch of
  stored identities leaves the number of rows as it was. Every row stored before stands
  where it stood, with its identity and its columns \<open>vehicle_name\<close>, \<open>model_code\<close>,
  \<open>group_desc\<close> and \<open>created_at\<close> untouched; the rows behind them are new and have these
  four columns \<open>NULL\<close>. A row whose identity was not submitted is as it was; every other
  row has, in each of the eight columns of \<open>DO UPDATE SET\<close>, the value of the last
  submitted row with its identity.
\<close>

theorem upsert_part_rows_merge:
  assumes d: "distinct (map part_identity (parts s))"
      and ps: "all_params rows = Inr ts"
  shows "upsert_part_rows [] s = Inr (s, 0)
     \<and> (\<forall>ds s' n. upsert_part_rows ds s = Inr (s', n) \<longrightarrow> n = length ds)
     \<and> length ts = length rows
     \<and> (\<forall>j < length rows.
            dict_item (rows ! j) ''vehicle_id'' = Inr (db_vehicle_id (ts ! j))
          \<and> dict_item (rows ! j) ''group_type'' = Inr (db_group_type (ts ! j))
          \<and> dict_item (rows ! j) ''table_no'' = Inr (db_table_no (ts ! j))
          \<and> dict_item (rows ! j) ''group_code'' = Inr (db_group_code (ts ! j))
          \<and> db_ref_no (ts ! j) = dict_get (rows ! j) ''ref_no'' []
          \<and> db_part_no (ts ! j) = dict_get (rows ! j) ''part_no'' []
          \<and> db_description (ts ! j) = dict_get (rows ! j) ''description'' []
          \<and> db_remark (ts ! j) = dict_get (rows ! j) ''remark'' []
          \<and> db_req_no (ts ! j) = dict_get (rows ! j) ''req_no'' []
          \<and> db_moq (ts ! j) = dict_get (rows ! j) ''moq'' []
          \<and> db_mrp (ts ! j) = dict_get (rows ! j) ''mrp'' []
          \<and> db_image_path (ts ! j) = dict_get (rows ! j) ''image_path'' []
          \<and> db_parts_page_url (ts ! j) = dict_get (rows ! j) ''parts_page_url'' []
          \<and> db_source_url (ts ! j) = dict_get (rows ! j) ''source_url'' [])
     \<and> (\<exists>s'. upsert_part_rows rows s = Inr (s', length rows)
            \<and> checkpoints s' = checkpoints s \<and> vehicles s' = vehicles s
            \<and> parts_pages s' = parts_pages s \<and> csv_output s' = csv_output s
            \<and> parquet_output s' = parquet_output s
            \<and> distinct (map part_identity (parts s'))
            \<and> set (map part_identity (parts s')) =
                set (map part_identity (parts s)) \<union> set (map part_identity ts)
            \<and> length (parts s) \<le> length (parts s')
            \<and> (set (map part_identity ts) \<subseteq> set (map part_identity (parts s)) \<longrightarrow>
                  length (parts s') = length (parts s))
            \<and> (\<forall>i < length (parts s).
                    part_identity (parts s' ! i) = part_identity (parts s ! i)
                  \<and> db_vehicle_name (parts s' ! i) = db_vehicle_name (parts s ! i)
                  \<and> db_model_code (parts s' ! i) = db_model_code (parts s ! i)
                  \<and> db_group_desc (parts s' ! i) = db_group_desc (parts s ! i)
                  \<and> db_created_at (parts s' ! i) = db_created_at (parts s ! i))
            \<and> (\<forall>i. length (parts s) \<le> i \<and> i < length (parts s') \<longrightarrow>
                    db_vehicle_name (parts s' ! i) = None
                  \<and> db_model_code (parts s' ! i) = None
                  \<and> db_group_desc (parts s' ! i) = None
                  \<and> db_created_at (parts s' ! i) = None)
            \<and> (\<forall>i < length (parts s').
                  case find (\<lambda>t. part_identity t = part_identity (parts s' ! i)) (rev ts) of
                    None \<Rightarrow> i < length (parts s) \<and> parts s' ! i = parts s ! i
                  | Some t \<Rightarrow>
                        db_description (parts s' ! i) = db_description t
                      \<and> db_remark (parts s' ! i) = db_remark t
                      \<and> db_req_no (parts s' ! i) = db_req_no t
                      \<and> db_moq (parts s' ! i) = db_moq t
                      \<and> db_mrp (parts s' ! i) = db_mrp t
                      \<and> db_image_path (parts s' ! i) = db_image_path t
                      \<and> db_parts_page_url (parts s' ! i) = db_parts_page_url t
                      \<and> db_source_url (parts s' ! i) = db_source_url t))"
proof (intro conjI)
  show "upsert_part_rows [] s = Inr (s, 0)"
    by (simp add: upsert_part_rows_def)
  show "\<forall>ds s' n. upsert_part_rows ds s = Inr (s', n) \<longrightarrow> n = length ds"
    using upsert_part_rows_count by blast
  from all_params_nth [OF ps] have len: "length ts = length rows"
    and nth: "\<And>j. j < length rows \<Longrightarrow> insert_params (rows ! j) = Inr (ts ! j)"
    by simp_all
  show "length ts = length rows"
    by (rule len)
  show "\<forall>j < length rows.
            dict_item (rows ! j) ''vehicle_id'' = Inr (db_vehicle_id (ts ! j))
          \<and> dict_item (rows ! j) ''group_type'' = Inr (db_group_type (ts ! j))
          \<and> dict_item (rows ! j) ''table_no'' = Inr (db_table_no (ts ! j))
          \<and> dict_item (rows ! j) ''group_code'' = Inr (db_group_code (ts ! j))
          \<and> db_ref_no (ts ! j) = dict_get (rows ! j) ''ref_no'' []
          \<and> db_part_no (ts ! j) = dict_get (rows ! j) ''part_no'' []
          \<and> db_description (ts ! j) = dict_get (rows ! j) ''description'' []
          \<and> db_remark (ts ! j) = dict_get (rows ! j) ''remark'' []
          \<and> db_req_no (ts ! j) = dict_get (rows ! j) ''req_no'' []
          \<and> db_moq (ts ! j) = dict_get (rows ! j) ''moq'' []
          \<and> db_mrp (ts ! j) = dict_get (rows ! j) ''mrp'' []
          \<and> db_image_path (ts ! j) = dict_get (rows ! j) ''image_path'' []
          \<and> db_parts_page_url (ts ! j) = dict_get (rows ! j) ''parts_page_url'' []
          \<and> db_source_url (ts ! j) = dict_get (rows ! j) ''source_url'' []"
    using insert_params_columns [OF nth] by simp
  have unset: "\<forall>t \<in> set ts. unset_columns t = (None, None, None, None)"
  proof
    fix t
    assume "t \<in> set ts"
    then obtain j where "j < length ts" "ts ! j = t"
      by (auto simp: in_set_conv_nth)
    with len insert_params_columns [OF nth [of j]] show "unset_columns t = (None, None, None, None)"
      by simp
  qed
  define db' where "db' = foldl (\<lambda>db t. upsert_row t db) (parts s) ts"
  have m: "merged (parts s) ts db'"
    unfolding db'_def using d unset by (rule merged_foldl)
  have run: "upsert_part_rows rows s = Inr (s\<lparr>parts := db'\<rparr>, length rows)"
  proof (cases "rows = []")
    case True
    with ps show ?thesis
      by (simp add: upsert_part_rows_def db'_def)
  next
    case False
    with ps show ?thesis
      by (simp add: upsert_part_rows_def db'_def)
  qed
  from m have d': "distinct (map part_identity db')"
    and ids: "set (map part_identity db') =
                set (map part_identity (parts s)) \<union> set (map part_identity ts)"
    and le: "length (parts s) \<le> length db'"
    and old: "\<forall>i < length (parts s).
                    part_identity (db' ! i) = part_identity (parts s ! i)
                  \<and> db_vehicle_name (db' ! i) = db_vehicle_name (parts s ! i)
                  \<and> db_model_code (db' ! i) = db_model_code (parts s ! i)
                  \<and> db_group_desc (db' ! i) = db_group_desc (parts s ! i)
                  \<and> db_created_at (db' ! i) = db_created_at (parts s ! i)"
    and new: "\<forall>i. length (parts s) \<le> i \<and> i < length db' \<longrightarrow>
                    db_vehicle_name (db' ! i) = None
                  \<and> db_model_code (db' ! i) = None
                  \<and> db_group_desc (db' ! i) = None
                  \<and> db_created_at (db' ! i) = None"
    and cols: "\<forall>i < length db'.
                  case find (\<lambda>t. part_identity t = part_identity (db' ! i)) (rev ts) of
                    None \<Rightarrow> i < length (parts s) \<and> db' ! i = parts s ! i
                  | Some t \<Rightarrow>
                        db_description (db' ! i) = db_description t
                      \<and> db_remark (db' ! i) = db_remark t
                      \<and> db_req_no (db' ! i) = db_req_no t
                      \<and> db_moq (db' ! i) = db_moq t
                      \<and> db_mrp (db' ! i) = db_mrp t
                      \<and> db_image_path (db' ! i) = db_image_path t
                      \<and> db_parts_page_url (db' ! i) = db_parts_page_url t
                      \<and> db_source_url (db' ! i) = db_source_url t"
    by (auto simp: merged_def unset_columns_def mutable_columns_def split: option.splits)
  have same: "length db' = length (parts s)"
    if "set (map part_identity ts) \<subseteq> set (map part_identity (parts s))"
  proof -
    from that ids have "set (map part_identity db') = set (map part_identity (parts s))"
      by auto
    then have "card (set (map part_identity db')) = card (set (map part_identity (parts s)))"
      by simp
    moreover have "card (set (map part_identity db')) = length db'"
      using d' distinct_card [of "map part_identity db'"] by simp
    moreover have "card (set (map part_identity (parts s))) = length (parts s)"
      using d distinct_card [of "map part_identity (parts s)"] by simp
    ultimately show ?thesis
      by simp
  qed
  define s' where "s' = s\<lparr>parts := db'\<rparr>"
  have p: "parts s' = db'"
    by (simp add: s'_def)
  have frames: "checkpoints s' = checkpoints s" "vehicles s' = vehicles s"
      "parts_pages s' = parts_pages s" "csv_output s' = csv_output s"
      "parquet_output s' = parquet_output s"
    by (simp_all add: s'_def)
  have run': "upsert_part_rows rows s = Inr (s', length rows)"
    using run by (simp add: s'_def)
  show "\<exists>s'. upsert_part_rows rows s = Inr (s', length rows)
            \<and> checkpoints s' = checkpoints s \<and> vehicles s' = vehicles s
            \<and> parts_pages s' = parts_pages s \<and> csv_output s' = csv_output s
            \<and> parquet_output s' = parquet_output s
            \<and> distinct (map part_identity (parts s'))
            \<and> set (map part_identity (parts s')) =
                set (map part_identity (parts s)) \<union> set (map part_identity ts)
            \<and> length (parts s) \<le> length (parts s')
            \<and> (set (map part_identity ts) \<subseteq> set (map part_identity (parts s)) \<longrightarrow>
                  length (parts s') = length (parts s))
            \<and> (\<forall>i < length (parts s).
                    part_identity (parts s' ! i) = part_identity (parts s ! i)
                  \<and> db_vehicle_name (parts s' ! i) = db_vehicle_name (parts s ! i)
                  \<and> db_model_code (parts s' ! i) = db_model_code (parts s ! i)
                  \<and> db_group_desc (parts s' ! i) = db_group_desc (parts s ! i)
                  \<and> db_created_at (parts s' ! i) = db_created_at (parts s ! i))
            \<and> (\<forall>i. length (parts s) \<le> i \<and> i < length (parts s') \<longrightarrow>
                    db_vehicle_name (parts s' ! i) = None
                  \<and> db_model_code (parts s' ! i) = None
                  \<and> db_group_desc (parts s' ! i) = None
                  \<and> db_created_at (parts s' ! i) = None)
            \<and> (\<forall>i < length (parts s').
                  case find (\<lambda>t. part_identity t = part_identity (parts s' ! i)) (rev ts) of
                    None \<Rightarrow> i < length (parts s) \<and> parts s' ! i = parts s ! i
                  | Some t \<Rightarrow>
                        db_description (parts s' ! i) = db_description t
                      \<and> db_remark (parts s' ! i) = db_remark t
                      \<and> db_req_no (parts s' ! i) = db_req_no t
                      \<and> db_moq (parts s' ! i) = db_moq t
                      \<and> db_mrp (parts s' ! i) = db_mrp t
                      \<and> db_image_path (parts s' ! i) = db_image_path t
                      \<and> db_parts_page_url (parts s' ! i) = db_parts_page_url t
                      \<and> db_source_url (parts s' ! i) = db_source_url t)"
    apply (rule exI [of _ s'])
    unfolding p
    using run' frames d' ids le old new cols same
    by simp
qed

lemma ex_full_params:
  "insert_params (example_full_dict r p d m) = Inr (example_full_row r p d m)"
  by (simp add: insert_params_def example_full_dict_def example_full_row_def example_dict_def
      example_row_def dict_item_def dict_get_def)

text \<open>
  A table with the rows \<open>(1, P1)\<close> and \<open>(2, P2)\<close>, and a batch of three: \<open>(1, P1)\<close> with
  every mutable column changed, and \<open>(3, P3)\<close> twice. The call returns 3; the first row is
  updated where it stands, in all eight columns, the second is untouched, and one row is
  added for \<open>(3, P3)\<close>, with the values submitted last.
\<close>

theorem upsert_part_rows_merge_witness:
  "distinct (map part_identity [example_row ''1'' ''P1'' ''old'', example_row ''2'' ''P2'' ''two''])
   \<and> all_params [example_full_dict ''1'' ''P1'' ''new'' ''9.50'',
                 example_full_dict ''3'' ''P3'' ''first'' ''1.00'',
                 example_full_dict ''3'' ''P3'' ''last'' ''2.00'']
       = Inr [example_full_row ''1'' ''P1'' ''new'' ''9.50'',
              example_full_row ''3'' ''P3'' ''first'' ''1.00'',
              example_full_row ''3'' ''P3'' ''last'' ''2.00'']
   \<and> upsert_part_rows [example_full_dict ''1'' ''P1'' ''new'' ''9.50'',
                       example_full_dict ''3'' ''P3'' ''first'' ''1.00'',
                       example_full_dict ''3'' ''P3'' ''last'' ''2.00'']
        (empty_store\<lparr>parts := [example_row ''1'' ''P1'' ''old'', example_row ''2'' ''P2'' ''two'']\<rparr>)
      = Inr (empty_store\<lparr>parts := [example_full_row ''1'' ''P1'' ''new'' ''9.50'',
                                  example_row ''2'' ''P2'' ''two'',
                                  example_full_row ''3'' ''P3'' ''last'' ''2.00'']\<rparr>, 3)"
  using upsert_part_rows_merge
    [of "empty_store\<lparr>parts := [example_row ''1'' ''P1'' ''old'', example_row ''2'' ''P2'' ''two'']\<rparr>"
        "[example_full_dict ''1'' ''P1'' ''new'' ''9.50'',
          example_full_dict ''3'' ''P3'' ''first'' ''1.00'',
          example_full_dict ''3'' ''P3'' ''last'' ''2.00'']"
        "[example_full_row ''1'' ''P1'' ''new'' ''9.50'',
          example_full_row ''3'' ''P3'' ''first'' ''1.00'',
          example_full_row ''3'' ''P3'' ''last'' ''2.00'']"]
  by (simp add: ex_full_params upsert_part_rows_def part_identity_def example_row_def
      example_full_row_def do_update_def empty_store_def)

section \<open>Results: writing a group into the output files\<close>

lemma insert_params_part_dict:
  "\<exists>t. insert_params (part_dict v ti pp pr) = Inr t \<and> in_group (group_of v ti) t"
  by (simp add: insert_params_def part_dict_def dict_item_def dict_get_def in_group_def
      group_of_def)

lemma all_params_part_dicts:
  "\<exists>ts. all_params (map (part_dict v ti pp) prs) = Inr ts
        \<and> list_all (in_group (group_of v ti)) ts \<and> length ts = length prs"
proof (induction prs)
  case Nil
  then show ?case by simp
next
  case (Cons pr prs)
  obtain t where "insert_params (part_dict v ti pp pr) = Inr t" "in_group (group_of v ti) t"
    using insert_params_part_dict by blast
  moreover obtain ts where "all_params (map (part_dict v ti pp) prs) = Inr ts"
      "list_all (in_group (group_of v ti)) ts" "length ts = length prs"
    using Cons.IH by blast
  ultimately show ?case by simp
qed

lemma in_group_do_update: "in_group key (do_update r t) = in_group key r"
  by (simp add: in_group_def do_update_def)

lemma in_group_identity:
  "part_identity r = part_identity t \<Longrightarrow> in_group key r = in_group key t"
  by (simp add: in_group_def part_identity_def)

lemma upsert_row_has_new:
  assumes t: "in_group key t"
  shows "\<exists>r \<in> set (upsert_row t db). in_group key r"
proof (induction db)
  case Nil
  with t show ?case by simp
next
  case (Cons r rs)
  show ?case
  proof (cases "part_identity r = part_identity t")
    case True
    then have "in_group key (do_update r t)"
      using t in_group_identity [of r t key] by (simp add: in_group_do_update)
    with True show ?thesis by simp
  next
    case False
    with Cons.IH show ?thesis by simp
  qed
qed

lemma upsert_row_keeps:
  "\<exists>r \<in> set db. in_group key r \<Longrightarrow> \<exists>r \<in> set (upsert_row t db). in_group key r"
  by (induction db) (auto simp: in_group_do_update)

lemma foldl_upsert_keeps:
  "\<exists>r \<in> set db. in_group key r \<Longrightarrow>
   \<exists>r \<in> set (foldl (\<lambda>db t. upsert_row t db) db ts). in_group key r"
proof (induction ts arbitrary: db)
  case Nil
  then show ?case by simp
next
  case (Cons t ts)
  from Cons.prems have "\<exists>r \<in> set (upsert_row t db). in_group key r"
    by (rule upsert_row_keeps)
  then show ?case
    using Cons.IH by simp
qed

lemma foldl_upsert_has_group:
  assumes "ts \<noteq> []" and "list_all (in_group key) ts"
  shows "filter (in_group key) (foldl (\<lambda>db t. upsert_row t db) db ts) \<noteq> []"
proof -
  from assms obtain t ts' where ts: "ts = t # ts'" and t: "in_group key t"
    by (cases ts) auto
  have "\<exists>r \<in> set (upsert_row t db). in_group key r"
    using t by (rule upsert_row_has_new)
  then have "\<exists>r \<in> set (foldl (\<lambda>db t. upsert_row t db) (upsert_row t db) ts'). in_group key r"
    by (rule foldl_upsert_keeps)
  then show ?thesis
    unfolding ts by (auto simp: filter_empty_conv)
qed

lemma fetch_group_df_in_group: "r \<in> set (fetch_group_df key s) \<Longrightarrow> in_group key r"
  by (simp add: fetch_group_df_def)

lemma fetch_group_df_empty:
  "fetch_group_df key s = [] \<longleftrightarrow> filter (in_group key) (parts s) = []"
proof -
  have "length (fetch_group_df key s) = length (filter (in_group key) (parts s))"
    by (simp add: fetch_group_df_def)
  then show ?thesis
    by (metis length_0_conv)
qed

lemma shard_key_enrich: "shard_key (enrich vn mc gd r) = key \<longleftrightarrow> in_group key r"
  by (auto simp: shard_key_def enrich_def in_group_def)

lemma mask_is_group:
  assumes "in_group key r0"
  shows "filter (\<lambda>r. \<not> (sh_vehicle_id r = sh_vehicle_id (enrich vn mc gd r0) \<and>
                        sh_group_type r = sh_group_type (enrich vn mc gd r0) \<and>
                        sh_table_no r = sh_table_no (enrich vn mc gd r0) \<and>
                        sh_group_code r = sh_group_code (enrich vn mc gd r0))) old
         = filter (\<lambda>r. shard_key r \<noteq> key) old"
  using assms by (intro filter_cong refl) (auto simp: shard_key_def enrich_def in_group_def)

lemma overwrite_csv_group:
  assumes "df \<noteq> []" and "\<forall>r \<in> set df. in_group key r"
  shows "overwrite_group_in_csv (map (enrich vn mc gd) df) s =
           Inr (s\<lparr>csv_output := Some (filter (\<lambda>r. shard_key r \<noteq> key)
                                         (map read_csv_row (existing_rows (csv_output s)))
                                       @ map (enrich vn mc gd) df)\<rparr>)"
proof -
  from assms obtain r0 rs where df: "df = r0 # rs" and r0: "in_group key r0"
    by (cases df) auto
  show ?thesis
  proof (cases "csv_output s")
    case None
    then show ?thesis
      by (simp add: overwrite_group_in_csv_def existing_rows_def)
  next
    case (Some ex)
    from mask_is_group [OF r0, where old = "map read_csv_row ex" and vn = vn and mc = mc and gd = gd]
      Some show ?thesis
      by (simp add: overwrite_group_in_csv_def existing_rows_def df Let_def)
  qed
qed

lemma overwrite_parquet_group:
  assumes "df \<noteq> []" and "\<forall>r \<in> set df. in_group key r"
  shows "overwrite_group_in_parquet (map (enrich vn mc gd) df) s =
           s\<lparr>parquet_output := Some (filter (\<lambda>r. shard_key r \<noteq> key) (existing_rows (parquet_output s))
                                       @ map (enrich vn mc gd) df)\<rparr>"
proof -
  from assms obtain r0 rs where df: "df = r0 # rs" and r0: "in_group key r0"
    by (cases df) auto
  show ?thesis
  proof (cases "parquet_output s")
    case None
    then show ?thesis
      by (simp add: overwrite_group_in_parquet_def existing_rows_def)
  next
    case (Some ex)
    from mask_is_group [OF r0, where old = ex and vn = vn and mc = mc and gd = gd] Some show ?thesis
      by (simp add: overwrite_group_in_parquet_def existing_rows_def df)
  qed
qed

text \<open>
  What \<open>append_parts_rows\<close> does for a group with rows: the rows are merged into the
  table; the CSV file is read back, the rows read that carry the group's key are dropped,
  and the group's rows of the table are appended with the three columns added; the Parquet
  file likewise, from its rows as written.
\<close>

lemma append_parts_rows_result:
  fixes vehicle table_index
  defines "key \<equiv> group_of vehicle table_index"
  assumes rows: "part_rows \<noteq> []"
  shows "\<exists>ts s1.
      all_params (map (part_dict vehicle table_index pp) part_rows) = Inr ts
    \<and> s1 = s\<lparr>parts := foldl (\<lambda>db t. upsert_row t db) (parts s) ts\<rparr>
    \<and> fetch_group_df key s1 \<noteq> []
    \<and> append_parts_rows vehicle table_index (Some pp) part_rows write_csv parquet s =
        Inr (let g = map (enrich (v_vehicle_name vehicle) (v_model_code vehicle)
                                 (ti_group_desc table_index)) (fetch_group_df key s1);
                 s2 = (if write_csv
                       then s1\<lparr>csv_output := Some (filter (\<lambda>r. shard_key r \<noteq> key)
                                                     (map read_csv_row (existing_rows (csv_output s1)))
                                                   @ g)\<rparr>
                       else s1)
             in if parquet
                then s2\<lparr>parquet_output := Some (filter (\<lambda>r. shard_key r \<noteq> key)
                                                  (existing_rows (parquet_output s2)) @ g)\<rparr>
                else s2,
             length part_rows)"
proof -
  obtain ts where ts: "all_params (map (part_dict vehicle table_index pp) part_rows) = Inr ts"
      "list_all (in_group key) ts" "length ts = length part_rows"
    unfolding key_def using all_params_part_dicts by blast
  define s1 where "s1 = s\<lparr>parts := foldl (\<lambda>db t. upsert_row t db) (parts s) ts\<rparr>"
  from rows ts have "ts \<noteq> []" by auto
  then have "filter (in_group key) (parts s1) \<noteq> []"
    unfolding s1_def using ts(2) by (simp add: foldl_upsert_has_group)
  then have ne: "fetch_group_df key s1 \<noteq> []"
    by (simp add: fetch_group_df_empty)
  have grp: "\<forall>r \<in> set (fetch_group_df key s1). in_group key r"
    by (simp add: fetch_group_df_in_group)
  obtain pr prs where pr: "part_rows = pr # prs"
    using rows by (cases part_rows) auto
  have conv: "convert_parts_to_dict_list vehicle table_index (Some pp) part_rows =
                Inr (map (part_dict vehicle table_index pp) part_rows)"
    using rows by (simp add: convert_parts_to_dict_list_def)
  have ups: "upsert_part_rows (map (part_dict vehicle table_index pp) part_rows) s =
               Inr (s1, length part_rows)"
    using rows by (simp add: upsert_part_rows_def ts s1_def)
  have enr: "enrich_group vehicle table_index (map (part_dict vehicle table_index pp) part_rows)
               (fetch_group_df key s1) =
             Inr (map (enrich (v_vehicle_name vehicle) (v_model_code vehicle)
                              (ti_group_desc table_index)) (fetch_group_df key s1))"
    using ne unfolding pr by (simp add: enrich_group_def part_dict_def dict_get_def)
  have "append_parts_rows vehicle table_index (Some pp) part_rows write_csv parquet s =
        Inr (let g = map (enrich (v_vehicle_name vehicle) (v_model_code vehicle)
                                 (ti_group_desc table_index)) (fetch_group_df key s1);
                 s2 = (if write_csv
                       then s1\<lparr>csv_output := Some (filter (\<lambda>r. shard_key r \<noteq> key)
                                                     (map read_csv_row (existing_rows (csv_output s1)))
                                                   @ g)\<rparr>
                       else s1)
             in if parquet
                then s2\<lparr>parquet_output := Some (filter (\<lambda>r. shard_key r \<noteq> key)
                                                  (existing_rows (parquet_output s2)) @ g)\<rparr>
                else s2,
             length part_rows)"
    unfolding append_parts_rows_def conv
    using ne grp
    by (simp add: ups enr key_def [symmetric] overwrite_csv_group overwrite_parquet_group Let_def)
  with ts(1) ne show ?thesis
    unfolding s1_def by blast
qed

lemmas ex_defs = example_vehicle_def example_index_def example_page_def example_part_def
  example_shard_row_def example_key_def empty_store_def three_parts_def

lemmas eval_defs = append_parts_rows_def convert_parts_to_dict_list_def part_dict_def
  upsert_part_rows_def insert_params_def dict_item_def dict_get_def part_identity_def
  do_update_def fetch_group_df_def in_group_def group_of_def ref_sort_key_def
  sqlite_cast_int_def sqlite_isspace_def is_digit_def digits_value_def digit_value_def
  enrich_group_def enrich_def overwrite_group_in_csv_def overwrite_group_in_parquet_def
  shard_key_def existing_rows_def read_csv_row_def read_cell_def pandas_na_values_def
  Let_def


text \<open>
  Claim C3 on the program. For a group whose code is ordinary text, materializing
  converges: a file that holds five rows of group \<open>G1\<close> and one of \<open>G2\<close>, a table without
  rows, three rows submitted for \<open>G1\<close>: both files end with the row of \<open>G2\<close> and the
  three rows of \<open>G1\<close>, sorted. For the group code \<open>NA\<close> the same call leaves eight rows of
  the group in the CSV file: the file is read back with \<open>pd.read_csv\<close> and its default
  missing-value strings, so the five rows come back with an empty group code, the mask
  finds none of them, they are kept (now without their group code) and the three rows
  are appended; the Parquet file ends with the three rows. Materializing one row of that
  group twice, from an empty store, leaves two rows in the CSV file and one in the table
  and in the Parquet file.
\<close>

theorem materialize_csv_na_group:
  "append_parts_rows example_vehicle (example_index ''ENGINE'' ''E-1'' ''G1'')
      (Some (example_page ''ENGINE'' ''E-1'' ''G1'')) three_parts True True
      (empty_store\<lparr>csv_output := Some five_rows, parquet_output := Some five_rows\<rparr>)
    = Inr (empty_store
             \<lparr>parts := map (\<lambda>(r, p). (example_row r p ''Bolt'')
                               \<lparr>db_req_no := ''1'', db_moq := ''1'', db_mrp := ''10.00'',
                                db_parts_page_url := ''http://parts'',
                                db_source_url := ''http://catalog''\<rparr>)
                          [(''3'', ''P3''), (''1'', ''P1''), (''2'', ''P2'')],
              csv_output := Some [example_shard_row ''G2'' ''1'' ''Q1'',
                                  example_shard_row ''G1'' ''1'' ''P1'',
                                  example_shard_row ''G1'' ''2'' ''P2'',
                                  example_shard_row ''G1'' ''3'' ''P3''],
              parquet_output := Some [example_shard_row ''G2'' ''1'' ''Q1'',
                                      example_shard_row ''G1'' ''1'' ''P1'',
                                      example_shard_row ''G1'' ''2'' ''P2'',
                                      example_shard_row ''G1'' ''3'' ''P3'']\<rparr>, 3)
   \<and> (\<exists>s'. append_parts_rows example_vehicle (example_index ''ENGINE'' ''E-1'' ''NA'')
              (Some (example_page ''ENGINE'' ''E-1'' ''NA'')) three_parts True True
              (empty_store\<lparr>csv_output := Some five_rows_NA, parquet_output := Some five_rows_NA\<rparr>)
            = Inr (s', 3)
          \<and> length (filter (in_group (''v1'', ''ENGINE'', ''E-1'', ''NA'')) (parts s')) = 3
          \<and> csv_output s' = Some [example_shard_row [] ''1'' ''P1'',
                                   example_shard_row [] ''2'' ''P2'',
                                   example_shard_row [] ''3'' ''P3'',
                                   example_shard_row ''G2'' ''1'' ''Q1'',
                                   example_shard_row [] ''4'' ''P4'',
                                   example_shard_row [] ''5'' ''P5'',
                                   example_shard_row ''NA'' ''1'' ''P1'',
                                   example_shard_row ''NA'' ''2'' ''P2'',
                                   example_shard_row ''NA'' ''3'' ''P3'']
          \<and> parquet_output s' = Some [example_shard_row ''G2'' ''1'' ''Q1'',
                                       example_shard_row ''NA'' ''1'' ''P1'',
                                       example_shard_row ''NA'' ''2'' ''P2'',
                                       example_shard_row ''NA'' ''3'' ''P3''])
   \<and> (\<exists>s1 s2.
          append_parts_rows example_vehicle (example_index ''ENGINE'' ''E-1'' ''NA'')
            (Some (example_page ''ENGINE'' ''E-1'' ''NA'')) [example_part ''1'' ''P1'']
            True True empty_store = Inr (s1, 1)
        \<and> csv_output s1 = Some [example_shard_row ''NA'' ''1'' ''P1'']
        \<and> append_parts_rows example_vehicle (example_index ''ENGINE'' ''E-1'' ''NA'')
            (Some (example_page ''ENGINE'' ''E-1'' ''NA'')) [example_part ''1'' ''P1'']
            True True s1 = Inr (s2, 1)
        \<and> length (parts s2) = 1
        \<and> csv_output s2 = Some [example_shard_row [] ''1'' ''P1'',
                                 example_shard_row ''NA'' ''1'' ''P1'']
        \<and> parquet_output s2 = Some [example_shard_row ''NA'' ''1'' ''P1''])"
proof (intro conjI)
  show "append_parts_rows example_vehicle (example_index ''ENGINE'' ''E-1'' ''G1'')
      (Some (example_page ''ENGINE'' ''E-1'' ''G1'')) three_parts True True
      (empty_store\<lparr>csv_output := Some five_rows, parquet_output := Some five_rows\<rparr>)
    = Inr (empty_store
             \<lparr>parts := map (\<lambda>(r, p). (example_row r p ''Bolt'')
                               \<lparr>db_req_no := ''1'', db_moq := ''1'', db_mrp := ''10.00'',
                                db_parts_page_url := ''http://parts'',
                                db_source_url := ''http://catalog''\<rparr>)
                          [(''3'', ''P3''), (''1'', ''P1''), (''2'', ''P2'')],
              csv_output := Some [example_shard_row ''G2'' ''1'' ''Q1'',
                                  example_shard_row ''G1'' ''1'' ''P1'',
                                  example_shard_row ''G1'' ''2'' ''P2'',
                                  example_shard_row ''G1'' ''3'' ''P3''],
              parquet_output := Some [example_shard_row ''G2'' ''1'' ''Q1'',
                                      example_shard_row ''G1'' ''1'' ''P1'',
                                      example_shard_row ''G1'' ''2'' ''P2'',
                                      example_shard_row ''G1'' ''3'' ''P3'']\<rparr>, 3)"
    by (simp add: five_rows_def ex_defs eval_defs example_row_def)
  show "\<exists>s'. append_parts_rows example_vehicle (example_index ''ENGINE'' ''E-1'' ''NA'')
              (Some (example_page ''ENGINE'' ''E-1'' ''NA'')) three_parts True True
              (empty_store\<lparr>csv_output := Some five_rows_NA, parquet_output := Some five_rows_NA\<rparr>)
            = Inr (s', 3)
          \<and> length (filter (in_group (''v1'', ''ENGINE'', ''E-1'', ''NA'')) (parts s')) = 3
          \<and> csv_output s' = Some [example_shard_row [] ''1'' ''P1'',
                                   example_shard_row [] ''2'' ''P2'',
                                   example_shard_row [] ''3'' ''P3'',
                                   example_shard_row ''G2'' ''1'' ''Q1'',
                                   example_shard_row [] ''4'' ''P4'',
                                   example_shard_row [] ''5'' ''P5'',
                                   example_shard_row ''NA'' ''1'' ''P1'',
                                   example_shard_row ''NA'' ''2'' ''P2'',
                                   example_shard_row ''NA'' ''3'' ''P3'']
          \<and> parquet_output s' = Some [example_shard_row ''G2'' ''1'' ''Q1'',
                                       example_shard_row ''NA'' ''1'' ''P1'',
                                       example_shard_row ''NA'' ''2'' ''P2'',
                                       example_shard_row ''NA'' ''3'' ''P3'']"
    by (simp add: five_rows_NA_def ex_defs eval_defs)
  show "\<exists>s1 s2.
          append_parts_rows example_vehicle (example_index ''ENGINE'' ''E-1'' ''NA'')
            (Some (example_page ''ENGINE'' ''E-1'' ''NA'')) [example_part ''1'' ''P1'']
            True True empty_store = Inr (s1, 1)
        \<and> csv_output s1 = Some [example_shard_row ''NA'' ''1'' ''P1'']
        \<and> append_parts_rows example_vehicle (example_index ''ENGINE'' ''E-1'' ''NA'')
            (Some (example_page ''ENGINE'' ''E-1'' ''NA'')) [example_part ''1'' ''P1'']
            True True s1 = Inr (s2, 1)
        \<and> length (parts s2) = 1
        \<and> csv_output s2 = Some [example_shard_row [] ''1'' ''P1'',
                                 example_shard_row ''NA'' ''1'' ''P1'']
        \<and> parquet_output s2 = Some [example_shard_row ''NA'' ''1'' ''P1'']"
    by (simp add: ex_defs eval_defs)
qed

section \<open>Results: the group loop\<close>

lemma store_checkpoint_frames [simp]:
  "parts (checkpoint_mark_pending k s) = parts s"
  "csv_output (checkpoint_mark_pending k s) = csv_output s"
  "parquet_output (checkpoint_mark_pending k s) = parquet_output s"
  "parts (checkpoint_mark_done k n i s) = parts s"
  "csv_output (checkpoint_mark_done k n i s) = csv_output s"
  "parquet_output (checkpoint_mark_done k n i s) = parquet_output s"
  "parts (checkpoint_mark_error k m s) = parts s"
  "csv_output (checkpoint_mark_error k m s) = csv_output s"
  "parquet_output (checkpoint_mark_error k m s) = parquet_output s"
  "parts (save_parts_page pg s) = parts s"
  "csv_output (save_parts_page pg s) = csv_output s"
  "parquet_output (save_parts_page pg s) = parquet_output s"
  "checkpoints (save_parts_page pg s) = checkpoints s"
  by (simp_all add: checkpoint_mark_pending_def checkpoint_mark_done_def
      checkpoint_mark_error_def save_parts_page_def upsert_parts_page_def)

lemma checkpoints_marks [simp]:
  "checkpoints (checkpoint_mark_pending k s) =
     (checkpoints s)(k \<mapsto> \<lparr>cp_status = ''pending'', cp_row_count = None, cp_image_saved = 0,
                             cp_last_error = None\<rparr>)"
  "checkpoints (checkpoint_mark_done k n i s) =
     (checkpoints s)(k \<mapsto> \<lparr>cp_status = ''done'', cp_row_count = Some n,
                             cp_image_saved = (if i then 1 else 0), cp_last_error = None\<rparr>)"
  "checkpoints (checkpoint_mark_error k m s) =
     (checkpoints s)(k \<mapsto> \<lparr>cp_status = ''error'', cp_row_count = None, cp_image_saved = 0,
                             cp_last_error = Some m\<rparr>)"
  by (simp_all add: checkpoint_mark_pending_def checkpoint_mark_done_def
      checkpoint_mark_error_def)




lemma upsert_part_rows_frames:
  "upsert_part_rows ds s = Inr (s', n) \<Longrightarrow>
   checkpoints s' = checkpoints s \<and> csv_output s' = csv_output s
   \<and> parquet_output s' = parquet_output s"
  by (auto simp: upsert_part_rows_def split: if_splits sum.splits)

lemma overwrite_csv_frames:
  "overwrite_group_in_csv g s = Inr s' \<Longrightarrow>
   checkpoints s' = checkpoints s \<and> parts s' = parts s \<and> parquet_output s' = parquet_output s"
  by (auto simp: overwrite_group_in_csv_def split: option.splits list.splits)

lemma overwrite_parquet_frames:
  "checkpoints (overwrite_group_in_parquet g s) = checkpoints s"
  "parts (overwrite_group_in_parquet g s) = parts s"
  "csv_output (overwrite_group_in_parquet g s) = csv_output s"
  by (auto simp: overwrite_group_in_parquet_def split: option.splits list.splits)

lemma append_parts_rows_checkpoints:
  "append_parts_rows v ti pg rows wc pq s = Inr (s', n) \<Longrightarrow> checkpoints s' = checkpoints s"
  "append_parts_rows v ti pg rows wc pq s = Inl (e, s') \<Longrightarrow> checkpoints s' = checkpoints s"
  by (auto simp: append_parts_rows_def overwrite_parquet_frames
      split: sum.splits if_splits prod.splits
      dest!: upsert_part_rows_frames overwrite_csv_frames)

lemma group_failed_fields [simp]:
  "store (group_failed k e p) = checkpoint_mark_error k (str_exn e) (store p)"
  "log (group_failed k e p) = log p @ [ErrorScraping k (str_exn e)]"
  "force_reprocess (group_failed k e p) = force_reprocess p"
  "save_parquet (group_failed k e p) = save_parquet p"
  "vehicles_processed (group_failed k e p) = vehicles_processed p"
  "milestone_batch (group_failed k e p) = milestone_batch p"
  by (simp_all add: group_failed_def)

text \<open>An iteration of the group loop in its three outcomes.\<close>

lemma process_group_skip:
  "checkpoint_status (group_of v ti) (store p) = Some ''done'' \<Longrightarrow> \<not> force_reprocess p \<Longrightarrow>
   process_group v ti res p =
     p\<lparr>total_groups_skipped := total_groups_skipped p + 1,
       log := log p @ [SkipDone (group_of v ti)]\<rparr>"
  by (simp add: process_group_def)

lemma process_group_error:
  "force_reprocess p \<or> checkpoint_status (group_of v ti) (store p) \<noteq> Some ''done'' \<Longrightarrow>
   process_group v ti (Inl e) p =
     group_failed (group_of v ti) e
       (p\<lparr>store := checkpoint_mark_pending (group_of v ti) (store p),
          log := log p @ [Scraping (group_of v ti)]\<rparr>)"
  by (auto simp: process_group_def Let_def)

lemma save_group_cases:
  obtains
    (failed) e s where
      "checkpoints s = checkpoints (store p1)"
      "store (save_group v ti pg rows img p1) = checkpoint_mark_error (group_of v ti) (str_exn e) s"
      "log (save_group v ti pg rows img p1) = log p1 @ [ErrorScraping (group_of v ti) (str_exn e)]"
  | (completed) s where
      "checkpoints s = checkpoints (store p1)"
      "store (save_group v ti pg rows img p1) = checkpoint_mark_done (group_of v ti) (length rows) img s"
      "log (save_group v ti pg rows img p1) = log p1 @ [Done (group_of v ti) (length rows) img]"
proof -
  let ?k = "group_of v ti"
  define p2 where
    "p2 = (case pg of None \<Rightarrow> p1 | Some g \<Rightarrow> p1\<lparr>store := save_parts_page g (store p1)\<rparr>)"
  have p2: "checkpoints (store p2) = checkpoints (store p1)" "log p2 = log p1"
    by (simp_all add: p2_def split: option.splits)
  define a where
    "a = (if rows \<noteq> [] then append_parts_rows v ti pg rows True (save_parquet p2) (store p2)
          else Inr (store p2, 0))"
  have unfold: "save_group v ti pg rows img p1 =
      (case a of
         Inl (e, s) \<Rightarrow> group_failed ?k e (p2\<lparr>store := s\<rparr>)
       | Inr (s3, upserted) \<Rightarrow>
           p2\<lparr>store := checkpoint_mark_done ?k (length rows) img s3,
              total_parts_rows :=
                (if rows \<noteq> [] then total_parts_rows p2 + length rows else total_parts_rows p2),
              total_images_saved :=
                (if img then total_images_saved p2 + 1 else total_images_saved p2),
              total_groups_done := total_groups_done p2 + 1,
              log := log p2 @ [Done ?k (length rows) img]\<rparr>)"
    unfolding save_group_def Let_def a_def p2_def ..
  show ?thesis
  proof (cases a)
    case a: (Inl es)
    obtain e' s' where es: "es = (e', s')"
      by (cases es) auto
    from a es have "checkpoints s' = checkpoints (store p2)"
      unfolding a_def by (auto split: if_splits dest: append_parts_rows_checkpoints(2))
    with p2 have cs: "checkpoints s' = checkpoints (store p1)"
      by simp
    have pg: "save_group v ti pg rows img p1 = group_failed ?k e' (p2\<lparr>store := s'\<rparr>)"
      unfolding unfold a es by simp
    show ?thesis
      by (rule failed [of s' e']) (use cs p2 in \<open>simp_all add: pg\<close>)
  next
    case a: (Inr sn)
    obtain s3 n where sn: "sn = (s3, n)"
      by (cases sn) auto
    from a sn have "checkpoints s3 = checkpoints (store p2)"
      unfolding a_def by (auto split: if_splits dest: append_parts_rows_checkpoints(1))
    with p2 have cs: "checkpoints s3 = checkpoints (store p1)"
      by simp
    have pg: "store (save_group v ti pg rows img p1) = checkpoint_mark_done ?k (length rows) img s3"
      "log (save_group v ti pg rows img p1) = log p2 @ [Done ?k (length rows) img]"
      unfolding unfold a sn by simp_all
    show ?thesis
      by (rule completed [of s3]) (use cs p2 pg in simp_all)
  qed
qed

lemma process_group_cases:
  obtains
    (skip) "checkpoint_status (group_of v ti) (store p) = Some ''done''" "\<not> force_reprocess p"
      "process_group v ti res p =
         p\<lparr>total_groups_skipped := total_groups_skipped p + 1,
           log := log p @ [SkipDone (group_of v ti)]\<rparr>"
  | (failed) e s where
      "force_reprocess p \<or> checkpoint_status (group_of v ti) (store p) \<noteq> Some ''done''"
      "checkpoints s = checkpoints (checkpoint_mark_pending (group_of v ti) (store p))"
      "store (process_group v ti res p) = checkpoint_mark_error (group_of v ti) (str_exn e) s"
      "log (process_group v ti res p) =
         log p @ [Scraping (group_of v ti), ErrorScraping (group_of v ti) (str_exn e)]"
  | (completed) n i s where
      "force_reprocess p \<or> checkpoint_status (group_of v ti) (store p) \<noteq> Some ''done''"
      "checkpoints s = checkpoints (checkpoint_mark_pending (group_of v ti) (store p))"
      "store (process_group v ti res p) = checkpoint_mark_done (group_of v ti) n i s"
      "log (process_group v ti res p) =
         log p @ [Scraping (group_of v ti), Done (group_of v ti) n i]"
proof (cases "checkpoint_status (group_of v ti) (store p) = Some ''done'' \<and> \<not> force_reprocess p")
  case True
  then show ?thesis
    using skip process_group_skip by blast
next
  case att: False
  then have att': "force_reprocess p \<or> checkpoint_status (group_of v ti) (store p) \<noteq> Some ''done''"
    by blast
  let ?k = "group_of v ti"
  define p1 where
    "p1 = p\<lparr>store := checkpoint_mark_pending ?k (store p), log := log p @ [Scraping ?k]\<rparr>"
  have p1: "store p1 = checkpoint_mark_pending ?k (store p)" "log p1 = log p @ [Scraping ?k]"
    by (simp_all add: p1_def)
  show ?thesis
  proof (cases res)
    case (Inl e)
    have "process_group v ti res p = group_failed ?k e p1"
      using att' unfolding Inl p1_def by (rule process_group_error)
    then show ?thesis
      using failed [of "store p1" e] att' p1 by simp
  next
    case (Inr r)
    obtain pg rows img where r: "r = (pg, rows, img)"
      by (cases r) auto
    have pg: "process_group v ti res p = save_group v ti pg rows img p1"
      using att unfolding process_group_def Let_def Inr r p1_def by auto
    note group_failed = failed and group_completed = completed
    show ?thesis
    proof (cases rule: save_group_cases [of p1 v ti pg rows img])
      case (failed e s)
      then show ?thesis
        using group_failed [of s e] att' p1 pg by simp
    next
      case (completed s)
      then show ?thesis
        using group_completed [of s "length rows" img] att' p1 pg by simp
    qed
  qed
qed

lemma visited_append [simp]: "visited (xs @ ys) = visited xs @ visited ys"
  by (induction xs rule: visited.induct) simp_all

lemma scraped_append [simp]: "scraped (xs @ ys) = scraped xs @ scraped ys"
  by (induction xs rule: scraped.induct) simp_all

lemma process_group_flags [simp]:
  "force_reprocess (process_group v ti res p) = force_reprocess p"
proof -
  have "force_reprocess (save_group v ti pg rows img q) = force_reprocess q" for pg rows img q
    by (simp add: save_group_def Let_def group_failed_def split: sum.splits prod.splits option.splits)
  then show ?thesis
    by (simp add: process_group_def Let_def split: sum.splits prod.splits)
qed

lemma process_group_log:
  "\<exists>new. log (process_group v ti res p) = log p @ new \<and> visited new = [group_of v ti]
         \<and> (force_reprocess p \<longrightarrow> scraped new = [group_of v ti])"
  by (cases rule: process_group_cases [of v ti p res]) auto

lemma process_groups_flags [simp]:
  "force_reprocess (process_groups ext v gs p) = force_reprocess p"
  by (induction gs arbitrary: p) simp_all

lemma process_groups_log:
  "\<exists>new. log (process_groups ext v gs p) = log p @ new \<and> visited new = map (group_of v) gs
         \<and> (force_reprocess p \<longrightarrow> scraped new = map (group_of v) gs)"
proof (induction gs arbitrary: p)
  case Nil
  then show ?case by simp
next
  case (Cons g gs)
  let ?q = "process_group v g (collect_parts ext v g) p"
  obtain n1 where n1: "log ?q = log p @ n1" "visited n1 = [group_of v g]"
      "force_reprocess p \<longrightarrow> scraped n1 = [group_of v g]"
    using process_group_log by blast
  obtain n2 where n2: "log (process_groups ext v gs ?q) = log ?q @ n2"
      "visited n2 = map (group_of v) gs"
      "force_reprocess ?q \<longrightarrow> scraped n2 = map (group_of v) gs"
    using Cons.IH by blast
  have "log (process_groups ext v (g # gs) p) = log p @ (n1 @ n2)"
    using n1 n2 by simp
  moreover have "visited (n1 @ n2) = map (group_of v) (g # gs)"
    using n1 n2 by simp
  moreover have "force_reprocess p \<longrightarrow> scraped (n1 @ n2) = map (group_of v) (g # gs)"
    using n1 n2 by simp
  ultimately show ?case by blast
qed

lemma process_group_other_checkpoint:
  "k \<noteq> group_of v ti \<Longrightarrow>
   checkpoints (store (process_group v ti res p)) k = checkpoints (store p) k"
  by (cases rule: process_group_cases [of v ti p res]) auto

lemma process_groups_other_checkpoint:
  "k \<notin> set (map (group_of v) gs) \<Longrightarrow>
   checkpoints (store (process_groups ext v gs p)) k = checkpoints (store p) k"
  by (induction gs arbitrary: p) (auto simp: process_group_other_checkpoint)

lemma process_group_settles: "settled (group_of v ti) (store (process_group v ti res p))"
  by (cases rule: process_group_cases [of v ti p res])
     (auto simp: settled_def checkpoint_status_def)

lemma process_group_keeps_settled:
  "settled k (store p) \<Longrightarrow> settled k (store (process_group v ti res p))"
proof (cases "k = group_of v ti")
  case True
  then show ?thesis by (simp add: process_group_settles)
next
  case False
  assume "settled k (store p)"
  with process_group_other_checkpoint [OF False] show ?thesis
    by (simp add: settled_def checkpoint_status_def)
qed

lemma process_groups_keeps_settled:
  "settled k (store p) \<Longrightarrow> settled k (store (process_groups ext v gs p))"
  by (induction gs arbitrary: p) (simp_all add: process_group_keeps_settled)

lemma process_groups_settles:
  "g \<in> set gs \<Longrightarrow> settled (group_of v g) (store (process_groups ext v gs p))"
proof (induction gs arbitrary: p)
  case Nil
  then show ?case by simp
next
  case (Cons a gs)
  show ?case
  proof (cases "g = a")
    case True
    then show ?thesis
      by (simp add: process_groups_keeps_settled process_group_settles)
  next
    case False
    with Cons show ?thesis by simp
  qed
qed

lemma process_groups_append:
  "process_groups ext v (xs @ ys) p = process_groups ext v ys (process_groups ext v xs p)"
  by (induction xs arbitrary: p) simp_all

lemma after_vehicle_fields [simp]:
  "store (after_vehicle vid p) = store p"
  "force_reprocess (after_vehicle vid p) = force_reprocess p"
  "save_parquet (after_vehicle vid p) = save_parquet p"
  "vehicles_processed (after_vehicle vid p) = vehicles_processed p + 1"
  "total_groups_done (after_vehicle vid p) = total_groups_done p"
  "total_groups_failed (after_vehicle vid p) = total_groups_failed p"
  by (simp_all add: after_vehicle_def mark_milestone_def Let_def)

lemma process_groups_vehicles_processed [simp]:
  "vehicles_processed (process_groups ext v gs p) = vehicles_processed p"
proof -
  have sg: "vehicles_processed (save_group v ti pg rows img q) = vehicles_processed q"
    for ti pg rows img q
    by (simp add: save_group_def Let_def group_failed_def split: sum.splits prod.splits option.splits)
  have "vehicles_processed (process_group v ti res q) = vehicles_processed q" for ti res q
    by (simp add: process_group_def Let_def sg split: sum.splits prod.splits)
  then show ?thesis
    by (induction gs arbitrary: p) simp_all
qed

lemma process_vehicle_counts:
  "vehicles_processed (process_vehicle ivc ext v p) = vehicles_processed p + 1"
  by (simp add: process_vehicle_def split: sum.splits bool.splits)

lemma process_vehicles_counts:
  "vehicles_processed (process_vehicles ivc ext vs p) = vehicles_processed p + length vs"
  by (induction vs arbitrary: p) (simp_all add: process_vehicle_counts)

text \<open>
  Claim C6. Let the group loop of a vehicle run over the indices \<open>pre @ b # post\<close>, and let
  the extraction of \<open>b\<close> raise when \<open>b\<close> is attempted. Then the loop goes on behind
  \<open>b\<close>; the checkpoint of \<open>b\<close> is \<open>error\<close> with the message of the exception; every
  other checkpoint, the table \<open>parts\<close> and the output files are as they were before
  \<open>b\<close>, so a group completed before keeps \<open>done\<close>; every index behind \<open>b\<close> is
  visited, in order (and scraped, when the run is forced), and ends \<open>done\<close> or
  \<open>error\<close>; a checkpoint of a group that is not among \<open>b # post\<close> is at the end what
  it was before \<open>b\<close>. The vehicle loop does not abort either: it counts every vehicle
  of its list, whatever the extractor and the store's gate answer.
\<close>

theorem error_isolation:
  fixes ext vehicle pre b post p
  defines "p1 \<equiv> process_groups ext vehicle pre p"
  defines "p2 \<equiv> process_group vehicle b (collect_parts ext vehicle b) p1"
  defines "p3 \<equiv> process_groups ext vehicle (pre @ b # post) p"
  assumes fail: "collect_parts ext vehicle b = Inl e"
      and att: "force_reprocess p \<or> checkpoint_status (group_of vehicle b) (store p1) \<noteq> Some ''done''"
  shows "p3 = process_groups ext vehicle post p2
     \<and> checkpoints (store p2) (group_of vehicle b) =
         Some \<lparr>cp_status = ''error'', cp_row_count = None, cp_image_saved = 0,
               cp_last_error = Some (str_exn e)\<rparr>
     \<and> (\<forall>k. k \<noteq> group_of vehicle b \<longrightarrow> checkpoints (store p2) k = checkpoints (store p1) k)
     \<and> parts (store p2) = parts (store p1)
     \<and> csv_output (store p2) = csv_output (store p1)
     \<and> parquet_output (store p2) = parquet_output (store p1)
     \<and> (\<exists>new. log p3 = log p2 @ new \<and> visited new = map (group_of vehicle) post
            \<and> (force_reprocess p \<longrightarrow> scraped new = map (group_of vehicle) post))
     \<and> (\<forall>g \<in> set post. settled (group_of vehicle g) (store p3))
     \<and> (\<forall>k. k \<notin> set (map (group_of vehicle) (b # post)) \<longrightarrow>
            checkpoints (store p3) k = checkpoints (store p1) k)
     \<and> (\<forall>ivc vs q. vehicles_processed (process_vehicles ivc ext vs q) =
            vehicles_processed q + length vs)"
proof -
  have att1: "force_reprocess p1 \<or> checkpoint_status (group_of vehicle b) (store p1) \<noteq> Some ''done''"
    using att by (simp add: p1_def)
  have p2_eq: "p2 = group_failed (group_of vehicle b) e
                 (p1\<lparr>store := checkpoint_mark_pending (group_of vehicle b) (store p1),
                     log := log p1 @ [Scraping (group_of vehicle b)]\<rparr>)"
    unfolding p2_def fail using att1 by (rule process_group_error)
  have p3_eq: "p3 = process_groups ext vehicle post p2"
    by (simp add: p3_def p2_def p1_def process_groups_append)
  have bs: "p3 = process_groups ext vehicle (b # post) p1"
    by (simp add: p3_def p1_def process_groups_append)
  have f2: "force_reprocess p2 = force_reprocess p"
    by (simp add: p2_def p1_def)
  have lg: "\<exists>new. log p3 = log p2 @ new \<and> visited new = map (group_of vehicle) post
            \<and> (force_reprocess p \<longrightarrow> scraped new = map (group_of vehicle) post)"
    unfolding p3_eq using process_groups_log [of ext vehicle post p2] f2 by simp
  have st: "\<forall>g \<in> set post. settled (group_of vehicle g) (store p3)"
    unfolding p3_eq by (simp add: process_groups_settles)
  have fr: "\<forall>k. k \<notin> set (map (group_of vehicle) (b # post)) \<longrightarrow>
            checkpoints (store p3) k = checkpoints (store p1) k"
    unfolding bs using process_groups_other_checkpoint by blast
  show ?thesis
    using p3_eq lg st fr process_vehicles_counts
    by (simp add: p2_eq)
qed

lemmas group_loop_defs = process_group_def save_group_def group_failed_def
  checkpoint_status_def checkpoint_mark_pending_def checkpoint_mark_done_def
  checkpoint_mark_error_def save_parts_page_def upsert_parts_page_def group_of_def
  new_pipeline_def Let_def

text \<open>
  Three groups of which the second raises, in a run that is not forced on an empty store:
  the statuses end \<open>done\<close>, \<open>error\<close>, \<open>done\<close>, and the three were scraped.
\<close>

theorem error_isolation_witness:
  "collect_parts failing_extractor example_vehicle (example_index ''ENGINE'' ''E-2'' ''G2'') =
     Inl (Exception ''Parts UI not found for G2'')
   \<and> (force_reprocess (new_pipeline False False empty_store)
      \<or> checkpoint_status (group_of example_vehicle (example_index ''ENGINE'' ''E-2'' ''G2''))
           (store (process_groups failing_extractor example_vehicle
                     [example_index ''ENGINE'' ''E-1'' ''G1''] (new_pipeline False False empty_store)))
         \<noteq> Some ''done'')
   \<and> map (\<lambda>k. checkpoint_status k
               (store (process_groups failing_extractor example_vehicle
                  ([example_index ''ENGINE'' ''E-1'' ''G1''] @ example_index ''ENGINE'' ''E-2'' ''G2''
                     # [example_index ''FRAME'' ''F-1'' ''G3''])
                  (new_pipeline False False empty_store))))
         [(''v1'', ''ENGINE'', ''E-1'', ''G1''), (''v1'', ''ENGINE'', ''E-2'', ''G2''),
          (''v1'', ''FRAME'', ''F-1'', ''G3'')]
       = [Some ''done'', Some ''error'', Some ''done'']
   \<and> scraped (log (process_groups failing_extractor example_vehicle
                  ([example_index ''ENGINE'' ''E-1'' ''G1''] @ example_index ''ENGINE'' ''E-2'' ''G2''
                     # [example_index ''FRAME'' ''F-1'' ''G3''])
                  (new_pipeline False False empty_store)))
       = [(''v1'', ''ENGINE'', ''E-1'', ''G1''), (''v1'', ''ENGINE'', ''E-2'', ''G2''),
          (''v1'', ''FRAME'', ''F-1'', ''G3'')]"
  using error_isolation
    [of failing_extractor example_vehicle "example_index ''ENGINE'' ''E-2'' ''G2''"
        "Exception ''Parts UI not found for G2''" "new_pipeline False False empty_store"
        "[example_index ''ENGINE'' ''E-1'' ''G1'']" "[example_index ''FRAME'' ''F-1'' ''G3'']"]
  by (simp add: failing_extractor_def example_vehicle_def example_index_def example_page_def
      empty_store_def group_loop_defs)

section \<open>Results: the vehicle loop\<close>

lemma milestone_warnings_append [simp]:
  "milestone_warnings (xs @ ys) = milestone_warnings xs @ milestone_warnings ys"
  by (induction xs rule: milestone_warnings.induct) simp_all

lemma after_vehicle_log_groups [simp]:
  "scraped (log (after_vehicle vid p)) = scraped (log p)"
  "visited (log (after_vehicle vid p)) = visited (log p)"
  by (simp_all add: after_vehicle_def mark_milestone_def Let_def)

lemma process_vehicle_DataStore:
  assumes "\<not> force_reprocess p"
  shows "store (process_vehicle DataStore_is_vehicle_complete ext v p) = store p
       \<and> force_reprocess (process_vehicle DataStore_is_vehicle_complete ext v p) = force_reprocess p
       \<and> scraped (log (process_vehicle DataStore_is_vehicle_complete ext v p)) = scraped (log p)
       \<and> visited (log (process_vehicle DataStore_is_vehicle_complete ext v p)) = visited (log p)"
  using assms
  by (simp add: process_vehicle_def DataStore_is_vehicle_complete_def split: sum.splits)

lemma process_vehicles_DataStore:
  assumes "\<not> force_reprocess p"
  shows "store (process_vehicles DataStore_is_vehicle_complete ext vs p) = store p
       \<and> scraped (log (process_vehicles DataStore_is_vehicle_complete ext vs p)) = scraped (log p)
       \<and> visited (log (process_vehicles DataStore_is_vehicle_complete ext vs p)) = visited (log p)"
  using assms
proof (induction vs arbitrary: p)
  case Nil
  then show ?case by simp
next
  case (Cons v vs)
  let ?q = "process_vehicle DataStore_is_vehicle_complete ext v p"
  from Cons.prems have q: "store ?q = store p" "\<not> force_reprocess ?q"
      "scraped (log ?q) = scraped (log p)" "visited (log ?q) = visited (log p)"
    using process_vehicle_DataStore [of p ext v] by simp_all
  from Cons.IH [OF q(2)] q show ?case by simp
qed

text \<open>
  Claim C1 on the program. With \<open>DataStore\<close> as the store, the gate raises
  \<open>AttributeError\<close> whenever it is asked, that is for every vehicle with a group in a
  run that is not forced; the vehicle's \<open>except\<close> catches it and the group loop is not
  entered. So a run that is not forced leaves the store as it found it and visits no
  group, also when groups of the vehicle are not \<open>done\<close>: for the vehicle \<open>V1\<close> of
  the scenario, on an empty store, the run logs the failure and the group \<open>G1\<close> still
  has no checkpoint.
\<close>

theorem vehicle_gate_missing:
  "store (process_vehicles DataStore_is_vehicle_complete ext vs (new_pipeline False parquet s)) = s
   \<and> scraped (log (process_vehicles DataStore_is_vehicle_complete ext vs
                      (new_pipeline False parquet s))) = []
   \<and> visited (log (process_vehicles DataStore_is_vehicle_complete ext vs
                      (new_pipeline False parquet s))) = []
   \<and> collect_indices example_extractor example_vehicle =
       Inr [example_index ''ENGINE'' ''E-1'' ''G1'', example_index ''FRAME'' ''F-1'' ''G2'']
   \<and> checkpoint_status example_key empty_store = None
   \<and> log (process_vehicles DataStore_is_vehicle_complete example_extractor [example_vehicle]
             (new_pipeline False False empty_store)) =
       [FailedVehicle ''v1'' (str_exn (no_attribute ''is_vehicle_complete''))]
   \<and> checkpoint_status example_key
        (store (process_vehicles DataStore_is_vehicle_complete example_extractor [example_vehicle]
                  (new_pipeline False False empty_store))) = None"
proof -
  have nf: "\<not> force_reprocess (new_pipeline False parquet s)" for parquet s
    by (simp add: new_pipeline_def)
  have g: "store (process_vehicles DataStore_is_vehicle_complete ext vs (new_pipeline False parquet s)) = s
   \<and> scraped (log (process_vehicles DataStore_is_vehicle_complete ext vs
                      (new_pipeline False parquet s))) = []
   \<and> visited (log (process_vehicles DataStore_is_vehicle_complete ext vs
                      (new_pipeline False parquet s))) = []"
    using process_vehicles_DataStore [OF nf, of ext vs parquet s]
    by (simp add: new_pipeline_def)
  have c: "log (process_vehicles DataStore_is_vehicle_complete example_extractor [example_vehicle]
             (new_pipeline False False empty_store)) =
       [FailedVehicle ''v1'' (str_exn (no_attribute ''is_vehicle_complete''))]"
    by (simp add: process_vehicle_def DataStore_is_vehicle_complete_def example_extractor_def
        new_pipeline_def after_vehicle_def milestone_every_def example_vehicle_def Let_def)
  have d: "checkpoint_status example_key
        (store (process_vehicles DataStore_is_vehicle_complete example_extractor [example_vehicle]
                  (new_pipeline False False empty_store))) = None"
    using process_vehicles_DataStore [OF nf, of example_extractor "[example_vehicle]" False empty_store]
    by (simp add: new_pipeline_def checkpoint_status_def empty_store_def)
  show ?thesis
    using g c d
    by (simp add: example_extractor_def checkpoint_status_def empty_store_def)
qed

subsection \<open>Milestones\<close>

lemma process_group_milestones [simp]:
  "milestone_warnings (log (process_group v ti res p)) = milestone_warnings (log p)"
  "milestone_batch (process_group v ti res p) = milestone_batch p"
proof -
  show "milestone_warnings (log (process_group v ti res p)) = milestone_warnings (log p)"
    by (cases rule: process_group_cases [of v ti p res]) auto
  have sg: "milestone_batch (save_group v ti pg rows img q) = milestone_batch q" for pg rows img q
    by (simp add: save_group_def Let_def group_failed_def split: sum.splits prod.splits option.splits)
  show "milestone_batch (process_group v ti res p) = milestone_batch p"
    by (simp add: process_group_def Let_def sg split: sum.splits prod.splits)
qed

lemma process_groups_milestones [simp]:
  "milestone_warnings (log (process_groups ext v gs p)) = milestone_warnings (log p)"
  "milestone_batch (process_groups ext v gs p) = milestone_batch p"
  by (induction gs arbitrary: p) simp_all

lemma after_vehicle_milestones:
  assumes "milestone_batch p = vehicles_processed p div milestone_every"
      and "milestone_warnings (log p) = [1..<Suc (milestone_batch p)]"
  shows "milestone_batch (after_vehicle vid p) = vehicles_processed (after_vehicle vid p) div milestone_every
       \<and> milestone_warnings (log (after_vehicle vid p)) = [1..<Suc (milestone_batch (after_vehicle vid p))]"
  using assms
  by (simp add: after_vehicle_def mark_milestone_def Let_def div_Suc milestone_every_def)

lemma process_vehicle_milestones:
  assumes "milestone_batch p = vehicles_processed p div milestone_every"
      and "milestone_warnings (log p) = [1..<Suc (milestone_batch p)]"
  shows "milestone_batch (process_vehicle ivc ext v p) =
           vehicles_processed (process_vehicle ivc ext v p) div milestone_every
       \<and> milestone_warnings (log (process_vehicle ivc ext v p)) =
           [1..<Suc (milestone_batch (process_vehicle ivc ext v p))]"
proof -
  have "\<exists>q. process_vehicle ivc ext v p = after_vehicle (v_vehicle_id v) q
      \<and> milestone_batch q = milestone_batch p \<and> vehicles_processed q = vehicles_processed p
      \<and> milestone_warnings (log q) = milestone_warnings (log p)"
    unfolding process_vehicle_def
    by (simp split: sum.splits bool.splits)
       (intro conjI allI impI; rule exI; rule conjI [OF refl]; simp)
  then obtain q where q: "process_vehicle ivc ext v p = after_vehicle (v_vehicle_id v) q"
      "milestone_batch q = milestone_batch p" "vehicles_processed q = vehicles_processed p"
      "milestone_warnings (log q) = milestone_warnings (log p)"
    by blast
  show ?thesis
    unfolding q(1) by (rule after_vehicle_milestones) (use assms q in simp_all)
qed

lemma process_vehicles_milestones:
  assumes "milestone_batch p = vehicles_processed p div milestone_every"
      and "milestone_warnings (log p) = [1..<Suc (milestone_batch p)]"
  shows "milestone_batch (process_vehicles ivc ext vs p) =
           vehicles_processed (process_vehicles ivc ext vs p) div milestone_every
       \<and> milestone_warnings (log (process_vehicles ivc ext vs p)) =
           [1..<Suc (milestone_batch (process_vehicles ivc ext vs p))]"
  using assms
proof (induction vs arbitrary: p)
  case Nil
  then show ?case by simp
next
  case (Cons v vs)
  have "milestone_batch (process_vehicle ivc ext v p) =
           vehicles_processed (process_vehicle ivc ext v p) div milestone_every
       \<and> milestone_warnings (log (process_vehicle ivc ext v p)) =
           [1..<Suc (milestone_batch (process_vehicle ivc ext v p))]"
    using Cons.prems by (rule process_vehicle_milestones)
  then show ?case
    using Cons.IH [of "process_vehicle ivc ext v p"] by simp
qed

text \<open>
  Claim C7 on the program. The pipeline counts the vehicles and raises its batch number
  once per \<open>milestone_every\<close> vehicles, for every extractor and gate: after \<open>n\<close>
  vehicles the batch number is \<open>n div 30\<close>. Every one of these milestones fails to be
  written: \<open>mark_milestone\<close> is not a method of the store, the warning is logged for the
  batches \<open>1, \<dots>, n div 30\<close>, and \<open>_after_vehicle\<close> leaves the store as it was. After
  the 61 vehicles of \<open>example_fleet\<close> the batch number is 2, the warnings are those of
  batches 1 and 2, and the store is still empty.
\<close>

theorem milestones_not_persisted:
  "store (after_vehicle vehicle_id p) = store p
   \<and> vehicles_processed (process_vehicles ivc ext vs (new_pipeline force parquet s)) = length vs
   \<and> milestone_batch (process_vehicles ivc ext vs (new_pipeline force parquet s)) =
       length vs div milestone_every
   \<and> milestone_warnings (log (process_vehicles ivc ext vs (new_pipeline force parquet s))) =
       [1..<Suc (length vs div milestone_every)]
   \<and> length example_fleet = 61
   \<and> milestone_batch (process_vehicles DataStore_is_vehicle_complete example_extractor example_fleet
                         (new_pipeline False False empty_store)) = 2
   \<and> milestone_warnings (log (process_vehicles DataStore_is_vehicle_complete example_extractor
                                  example_fleet (new_pipeline False False empty_store))) = [1, 2]
   \<and> store (process_vehicles DataStore_is_vehicle_complete example_extractor example_fleet
                (new_pipeline False False empty_store)) = empty_store"
proof -
  have init: "milestone_batch (new_pipeline force parquet s) =
                vehicles_processed (new_pipeline force parquet s) div milestone_every"
    "milestone_warnings (log (new_pipeline force parquet s)) =
       [1..<Suc (milestone_batch (new_pipeline force parquet s))]"
    for force parquet s
    by (simp_all add: new_pipeline_def)
  have cnt: "vehicles_processed (process_vehicles ivc ext vs (new_pipeline force parquet s)) = length vs"
    for ivc ext vs force parquet s
    by (simp add: process_vehicles_counts new_pipeline_def)
  have gen: "milestone_batch (process_vehicles ivc ext vs (new_pipeline force parquet s)) =
               length vs div milestone_every
       \<and> milestone_warnings (log (process_vehicles ivc ext vs (new_pipeline force parquet s))) =
           [1..<Suc (length vs div milestone_every)]"
    for ivc ext vs force parquet s
    using process_vehicles_milestones [OF init, of ivc ext vs force parquet s]
    by (simp add: cnt)
  have len: "length example_fleet = 61"
    by (simp add: example_fleet_def)
  have two: "(61::nat) div milestone_every = 2" "[1..<Suc 2] = [1, 2::nat]"
    by (simp_all add: milestone_every_def upt_rec)
  have st: "store (process_vehicles DataStore_is_vehicle_complete example_extractor example_fleet
                (new_pipeline False False empty_store)) = empty_store"
    using process_vehicles_DataStore
      [of "new_pipeline False False empty_store" example_extractor example_fleet]
    by (simp add: new_pipeline_def)
  show ?thesis
    using gen [of ivc ext vs force parquet s]
      gen [of DataStore_is_vehicle_complete example_extractor example_fleet False False empty_store]
      cnt [of ivc ext vs force parquet s] len two st
    by simp
qed

section \<open>Results: the run\<close>

text \<open>
  Claim C8. In a run whose browser starts: when the catalogue table is absent, or no
  vehicle is found on the page, or \<open>collect_vehicles\<close> raises for any other reason, the
  process exits with code 1 and the store is as it was: no vehicle was saved or
  processed. When \<open>collect_vehicles\<close> returns its list, the exit code is 0 and every
  vehicle of the list is counted, whatever the extractor answers for the vehicles and
  groups and whatever the store's gate answers.
\<close>

theorem catalog_failure_fatal:
  assumes "launch w = None"
  shows "(goto_result (catalog w) = None \<and> \<not> table_found (catalog w) \<longrightarrow>
            main ivc w url force parquet s = (1, s))
     \<and> (goto_result (catalog w) = None \<and> datatables_ready (catalog w) = None
          \<and> vehicles_data (catalog w) = Inr [] \<longrightarrow>
            main ivc w url force parquet s = (1, s))
     \<and> (\<forall>e. collect_vehicles (slugify w) (catalog w) url = Inl e \<longrightarrow>
            main ivc w url force parquet s = (1, s))
     \<and> (\<forall>vs. collect_vehicles (slugify w) (catalog w) url = Inr vs \<longrightarrow>
            fst (main ivc w url force parquet s) = 0
          \<and> vehicles_processed
               (process_vehicles ivc (extractor w) vs
                  (save_vehicles vs (new_pipeline force parquet s))) = length vs)"
proof -
  have fatal: "main ivc w url force parquet s = (1, s)"
    if "collect_vehicles (slugify w) (catalog w) url = Inl e" for e
    using that assms by (simp add: main_def run_def new_pipeline_def)
  have absent: "collect_vehicles (slugify w) (catalog w) url =
                  Inl (Exception ''Main catalog table #datatable-t2 not found'')"
    if "goto_result (catalog w) = None" "\<not> table_found (catalog w)"
    using that by (simp add: collect_vehicles_def)
  have none: "collect_vehicles (slugify w) (catalog w) url =
                  Inl (Exception ''No vehicles found in catalog'')
              \<or> collect_vehicles (slugify w) (catalog w) url =
                  Inl (Exception ''Main catalog table #datatable-t2 not found'')"
    if "goto_result (catalog w) = None" "datatables_ready (catalog w) = None"
       "vehicles_data (catalog w) = Inr []"
    using that by (simp add: collect_vehicles_def)
  have ok: "fst (main ivc w url force parquet s) = 0
          \<and> vehicles_processed
               (process_vehicles ivc (extractor w) vs
                  (save_vehicles vs (new_pipeline force parquet s))) = length vs"
    if "collect_vehicles (slugify w) (catalog w) url = Inr vs" for vs
    using that assms
    by (simp add: main_def run_def process_vehicles_counts save_vehicles_def new_pipeline_def)
  show ?thesis
    using fatal absent none ok by blast
qed

text \<open>
  A catalogue without its table and a catalogue page without cards end in exit code 1 on
  an untouched store; a forced run in which a group's extraction raises ends in exit
  code 0.
\<close>

theorem catalog_failure_fatal_witness:
  "launch (example_world\<lparr>catalog := example_catalog\<lparr>table_found := False\<rparr>\<rparr>) = None
   \<and> main DataStore_is_vehicle_complete
        (example_world\<lparr>catalog := example_catalog\<lparr>table_found := False\<rparr>\<rparr>)
        ''http://catalog'' False False empty_store = (1, empty_store)
   \<and> main DataStore_is_vehicle_complete
        (example_world\<lparr>catalog := example_catalog\<lparr>single_page := Inr []\<rparr>\<rparr>)
        ''http://catalog'' False False empty_store = (1, empty_store)
   \<and> launch (example_world\<lparr>extractor := failing_extractor\<rparr>) = None
   \<and> collect_vehicles (slugify (example_world\<lparr>extractor := failing_extractor\<rparr>))
        (catalog (example_world\<lparr>extractor := failing_extractor\<rparr>)) ''http://catalog''
       = Inr [example_vehicle]
   \<and> fst (main DataStore_is_vehicle_complete (example_world\<lparr>extractor := failing_extractor\<rparr>)
             ''http://catalog'' True False empty_store) = 0"
  using catalog_failure_fatal
      [of "example_world\<lparr>catalog := example_catalog\<lparr>table_found := False\<rparr>\<rparr>"
          DataStore_is_vehicle_complete "''http://catalog''" False False empty_store]
    catalog_failure_fatal
      [of "example_world\<lparr>catalog := example_catalog\<lparr>single_page := Inr []\<rparr>\<rparr>"
          DataStore_is_vehicle_complete "''http://catalog''" False False empty_store]
    catalog_failure_fatal
      [of "example_world\<lparr>extractor := failing_extractor\<rparr>"
          DataStore_is_vehicle_complete "''http://catalog''" True False empty_store]
  by (simp add: example_world_def example_catalog_def collect_vehicles_def vehicles_data_def
      example_vehicle_def py_strip_def py_isspace_def)

subsection \<open>A run over groups that are all done\<close>

lemma process_groups_all_done:
  assumes "\<not> force_reprocess p" and "groups_done v gs (store p)"
  shows "store (process_groups ext v gs p) = store p
       \<and> scraped (log (process_groups ext v gs p)) = scraped (log p)
       \<and> total_groups_done (process_groups ext v gs p) = total_groups_done p
       \<and> total_groups_failed (process_groups ext v gs p) = total_groups_failed p"
  using assms
proof (induction gs arbitrary: p)
  case Nil
  then show ?case by simp
next
  case (Cons g gs)
  from Cons.prems have d: "checkpoint_status (group_of v g) (store p) = Some ''done''"
    and rest: "groups_done v gs (store p)"
    by (simp_all add: groups_done_def)
  let ?q = "p\<lparr>total_groups_skipped := total_groups_skipped p + 1,
              log := log p @ [SkipDone (group_of v g)]\<rparr>"
  have q: "process_group v g (collect_parts ext v g) p = ?q"
    using d Cons.prems(1) by (rule process_group_skip)
  have "store (process_groups ext v gs ?q) = store ?q
       \<and> scraped (log (process_groups ext v gs ?q)) = scraped (log ?q)
       \<and> total_groups_done (process_groups ext v gs ?q) = total_groups_done ?q
       \<and> total_groups_failed (process_groups ext v gs ?q) = total_groups_failed ?q"
    by (rule Cons.IH) (use Cons.prems rest in simp_all)
  then show ?case
    by (simp add: q)
qed

lemma process_vehicle_all_done:
  assumes nf: "\<not> force_reprocess p"
      and dn: "case collect_indices ext v of Inl e \<Rightarrow> True | Inr gs \<Rightarrow> groups_done v gs (store p)"
  shows "store (process_vehicle ivc ext v p) = store p
       \<and> force_reprocess (process_vehicle ivc ext v p) = force_reprocess p
       \<and> scraped (log (process_vehicle ivc ext v p)) = scraped (log p)
       \<and> total_groups_done (process_vehicle ivc ext v p) = total_groups_done p
       \<and> total_groups_failed (process_vehicle ivc ext v p) = total_groups_failed p"
proof (cases "collect_indices ext v")
  case (Inl e)
  then show ?thesis
    by (simp add: process_vehicle_def)
next
  case (Inr gs)
  with dn have gd: "groups_done v gs (store p)"
    by simp
  let ?q = "p\<lparr>total_groups_seen := total_groups_seen p + length gs,
              log := log p @ [FoundGroups (v_vehicle_id v) (length gs)]\<rparr>"
  have "store (process_groups ext v gs ?q) = store ?q
       \<and> scraped (log (process_groups ext v gs ?q)) = scraped (log ?q)
       \<and> total_groups_done (process_groups ext v gs ?q) = total_groups_done ?q
       \<and> total_groups_failed (process_groups ext v gs ?q) = total_groups_failed ?q"
    by (rule process_groups_all_done) (use nf gd in simp_all)
  then show ?thesis
    using nf by (simp add: process_vehicle_def Inr split: sum.splits bool.splits)
qed

lemma groups_done_checkpoints:
  "checkpoints a = checkpoints b \<Longrightarrow> groups_done v gs a = groups_done v gs b"
  by (simp add: groups_done_def checkpoint_status_def)

lemma all_done_checkpoints:
  assumes "checkpoints a = checkpoints b"
  shows "all_done ext vs a = all_done ext vs b"
  unfolding all_done_def using groups_done_checkpoints [OF assms]
  by (auto simp: list_all_iff split: sum.splits)

lemma process_vehicles_all_done:
  assumes "\<not> force_reprocess p" and "all_done ext vs (store p)"
  shows "store (process_vehicles ivc ext vs p) = store p
       \<and> scraped (log (process_vehicles ivc ext vs p)) = scraped (log p)
       \<and> total_groups_done (process_vehicles ivc ext vs p) = total_groups_done p
       \<and> total_groups_failed (process_vehicles ivc ext vs p) = total_groups_failed p"
  using assms
proof (induction vs arbitrary: p)
  case Nil
  then show ?case by simp
next
  case (Cons v vs)
  let ?q = "process_vehicle ivc ext v p"
  have q: "store ?q = store p \<and> force_reprocess ?q = force_reprocess p
       \<and> scraped (log ?q) = scraped (log p)
       \<and> total_groups_done ?q = total_groups_done p
       \<and> total_groups_failed ?q = total_groups_failed p"
    by (rule process_vehicle_all_done) (use Cons.prems in \<open>simp_all add: all_done_def\<close>)
  have "store (process_vehicles ivc ext vs ?q) = store ?q
       \<and> scraped (log (process_vehicles ivc ext vs ?q)) = scraped (log ?q)
       \<and> total_groups_done (process_vehicles ivc ext vs ?q) = total_groups_done ?q
       \<and> total_groups_failed (process_vehicles ivc ext vs ?q) = total_groups_failed ?q"
    by (rule Cons.IH) (use Cons.prems q in \<open>simp_all add: all_done_def\<close>)
  with q show ?case by simp
qed

subsection \<open>No duplicate natural keys in the table and in the Parquet file\<close>

lemma no_duplicates_beside_csv_cong:
  "parts a = parts b \<Longrightarrow> parquet_output a = parquet_output b
   \<Longrightarrow> no_duplicates_beside_csv a = no_duplicates_beside_csv b"
  by (simp add: no_duplicates_beside_csv_def)

lemma distinct_foldl_upsert:
  "distinct (map part_identity db) \<Longrightarrow>
   distinct (map part_identity (foldl (\<lambda>db t. upsert_row t db) db ts))"
  by (induction ts arbitrary: db) (simp_all add: distinct_upsert_row)

lemma shard_identity_enrich: "shard_identity (enrich vn mc gd r) = part_identity r"
  by (simp add: shard_identity_def enrich_def part_identity_def)

lemma distinct_fetch:
  assumes "distinct (map part_identity (parts s))"
  shows "distinct (map part_identity (fetch_group_df key s))"
proof -
  have "distinct (map part_identity (filter (in_group key) (parts s)))"
    using assms by (rule distinct_map_filter)
  moreover have "mset (map part_identity (fetch_group_df key s)) =
                 mset (map part_identity (filter (in_group key) (parts s)))"
    by (simp add: fetch_group_df_def)
  ultimately show ?thesis
    by (metis mset_eq_imp_distinct_iff)
qed

lemma shard_key_of_identity:
  "shard_identity a = shard_identity b \<Longrightarrow> shard_key a = shard_key b"
  by (simp add: shard_identity_def shard_key_def)

lemma distinct_rewritten:
  assumes old: "distinct (map shard_identity old)"
      and new: "distinct (map part_identity df)"
      and grp: "\<forall>r \<in> set df. in_group key r"
  shows "distinct (map shard_identity
           (filter (\<lambda>r. shard_key r \<noteq> key) old @ map (enrich vn mc gd) df))"
proof -
  have a: "distinct (map shard_identity (filter (\<lambda>r. shard_key r \<noteq> key) old))"
    using old by (rule distinct_map_filter)
  have b: "distinct (map shard_identity (map (enrich vn mc gd) df))"
    using new by (simp add: comp_def shard_identity_enrich)
  have c: "shard_identity x \<noteq> shard_identity (enrich vn mc gd r)"
    if "x \<in> set old" "shard_key x \<noteq> key" "r \<in> set df" for x r
  proof
    assume "shard_identity x = shard_identity (enrich vn mc gd r)"
    then have "shard_key x = shard_key (enrich vn mc gd r)"
      by (rule shard_key_of_identity)
    moreover have "shard_key (enrich vn mc gd r) = key"
      using grp that(3) by (simp add: shard_key_enrich)
    ultimately show False
      using that(2) by simp
  qed
  have c': "shard_identity (enrich vn mc gd r) \<noteq> shard_identity x"
    if "x \<in> set old" "shard_key x \<noteq> key" "r \<in> set df" for x r
    using c [OF that] by (rule not_sym)
  show ?thesis
    using a b c c' by (auto simp: comp_def)
qed

lemma append_parts_rows_no_duplicates:
  assumes inv: "no_duplicates_beside_csv s" and rows: "part_rows \<noteq> []"
  shows "case append_parts_rows v ti pg part_rows True pq s of
           Inl (e, s') \<Rightarrow> no_duplicates_beside_csv s'
         | Inr (s', n) \<Rightarrow> no_duplicates_beside_csv s'"
proof (cases pg)
  case None
  then show ?thesis
    using inv rows by (simp add: append_parts_rows_def convert_parts_to_dict_list_def)
next
  case (Some pp)
  let ?key = "group_of v ti"
  let ?en = "enrich (v_vehicle_name v) (v_model_code v) (ti_group_desc ti)"
  obtain ts s1 where s1: "s1 = s\<lparr>parts := foldl (\<lambda>db t. upsert_row t db) (parts s) ts\<rparr>"
    and res: "append_parts_rows v ti (Some pp) part_rows True pq s =
        Inr (let g = map ?en (fetch_group_df ?key s1);
                 s2 = (if True
                       then s1\<lparr>csv_output := Some (filter (\<lambda>r. shard_key r \<noteq> ?key)
                                                     (map read_csv_row (existing_rows (csv_output s1)))
                                                   @ g)\<rparr>
                       else s1)
             in if pq
                then s2\<lparr>parquet_output := Some (filter (\<lambda>r. shard_key r \<noteq> ?key)
                                                  (existing_rows (parquet_output s2)) @ g)\<rparr>
                else s2,
             length part_rows)"
    using append_parts_rows_result [OF rows, of v ti pp s True pq]
    by blast
  have p1: "distinct (map part_identity (parts s1))"
    using inv by (simp add: s1 no_duplicates_beside_csv_def distinct_foldl_upsert)
  have df: "distinct (map part_identity (fetch_group_df ?key s1))"
    using p1 by (rule distinct_fetch)
  have grp: "\<forall>r \<in> set (fetch_group_df ?key s1). in_group ?key r"
    by (simp add: fetch_group_df_in_group)
  have pqt: "distinct (map shard_identity
               (filter (\<lambda>r. shard_key r \<noteq> ?key) (existing_rows (parquet_output s1))
                @ map ?en (fetch_group_df ?key s1)))"
    using _ df grp
    by (rule distinct_rewritten) (use inv in \<open>simp add: s1 no_duplicates_beside_csv_def\<close>)
  have old: "distinct (map shard_identity (existing_rows (parquet_output s1)))"
    using inv by (simp add: s1 no_duplicates_beside_csv_def)
  show ?thesis
    unfolding Some res using p1 pqt old
    by (simp add: Let_def no_duplicates_beside_csv_def existing_rows_def)
qed

lemma save_group_no_duplicates:
  assumes inv: "no_duplicates_beside_csv (store p1)"
  shows "no_duplicates_beside_csv (store (save_group v ti pg rows img p1))"
proof -
  let ?k = "group_of v ti"
  define p2 where
    "p2 = (case pg of None \<Rightarrow> p1 | Some g \<Rightarrow> p1\<lparr>store := save_parts_page g (store p1)\<rparr>)"
  have "parts (store p2) = parts (store p1)"
    "parquet_output (store p2) = parquet_output (store p1)"
    by (simp_all add: p2_def split: option.splits)
  then have p2: "no_duplicates_beside_csv (store p2)"
    using inv no_duplicates_beside_csv_cong by blast
  define a where
    "a = (if rows \<noteq> [] then append_parts_rows v ti pg rows True (save_parquet p2) (store p2)
          else Inr (store p2, 0))"
  have unfold: "save_group v ti pg rows img p1 =
      (case a of
         Inl (e, s) \<Rightarrow> group_failed ?k e (p2\<lparr>store := s\<rparr>)
       | Inr (s3, upserted) \<Rightarrow>
           p2\<lparr>store := checkpoint_mark_done ?k (length rows) img s3,
              total_parts_rows :=
                (if rows \<noteq> [] then total_parts_rows p2 + length rows else total_parts_rows p2),
              total_images_saved :=
                (if img then total_images_saved p2 + 1 else total_images_saved p2),
              total_groups_done := total_groups_done p2 + 1,
              log := log p2 @ [Done ?k (length rows) img]\<rparr>)"
    unfolding save_group_def Let_def a_def p2_def ..
  have a: "case a of Inl (e, s') \<Rightarrow> no_duplicates_beside_csv s'
                   | Inr (s', n) \<Rightarrow> no_duplicates_beside_csv s'"
  proof (cases "rows = []")
    case True
    then show ?thesis by (simp add: a_def p2)
  next
    case False
    then show ?thesis
      unfolding a_def using append_parts_rows_no_duplicates [OF p2 False] by simp
  qed
  have mark: "no_duplicates_beside_csv (checkpoint_mark_done k n i s) = no_duplicates_beside_csv s"
    "no_duplicates_beside_csv (checkpoint_mark_error k m s) = no_duplicates_beside_csv s"
    for k n i m s
    by (simp_all add: no_duplicates_beside_csv_def)
  show ?thesis
    unfolding unfold using a
    by (auto simp: mark split: sum.splits prod.splits)
qed

lemma process_group_no_duplicates:
  assumes "no_duplicates_beside_csv (store p)"
  shows "no_duplicates_beside_csv (store (process_group v ti res p))"
proof -
  have pend: "no_duplicates_beside_csv (checkpoint_mark_pending k s) = no_duplicates_beside_csv s"
    for k s
    by (simp add: no_duplicates_beside_csv_def)
  have err: "no_duplicates_beside_csv (checkpoint_mark_error k m s) = no_duplicates_beside_csv s"
    for k m s
    by (simp add: no_duplicates_beside_csv_def)
  show ?thesis
    using assms
    by (auto simp: process_group_def Let_def pend err save_group_no_duplicates
        split: sum.splits prod.splits)
qed

lemma process_groups_no_duplicates:
  "no_duplicates_beside_csv (store p) \<Longrightarrow>
   no_duplicates_beside_csv (store (process_groups ext v gs p))"
  by (induction gs arbitrary: p) (simp_all add: process_group_no_duplicates)

lemma process_vehicle_no_duplicates:
  "no_duplicates_beside_csv (store p) \<Longrightarrow>
   no_duplicates_beside_csv (store (process_vehicle ivc ext v p))"
  by (simp add: process_vehicle_def process_groups_no_duplicates split: sum.splits bool.splits)

lemma process_vehicles_no_duplicates:
  "no_duplicates_beside_csv (store p) \<Longrightarrow>
   no_duplicates_beside_csv (store (process_vehicles ivc ext vs p))"
  by (induction vs arbitrary: p) (simp_all add: process_vehicle_no_duplicates)

lemma save_vehicles_frames [simp]:
  "parts (store (save_vehicles vs p)) = parts (store p)"
  "csv_output (store (save_vehicles vs p)) = csv_output (store p)"
  "parquet_output (store (save_vehicles vs p)) = parquet_output (store p)"
  "checkpoints (store (save_vehicles vs p)) = checkpoints (store p)"
  "force_reprocess (save_vehicles vs p) = force_reprocess p"
  "log (save_vehicles vs p) = log p"
  "total_groups_done (save_vehicles vs p) = total_groups_done p"
  "total_groups_failed (save_vehicles vs p) = total_groups_failed p"
proof -
  have "parts (foldl (\<lambda>s v. save_vehicle v s) s vs) = parts s
      \<and> csv_output (foldl (\<lambda>s v. save_vehicle v s) s vs) = csv_output s
      \<and> parquet_output (foldl (\<lambda>s v. save_vehicle v s) s vs) = parquet_output s
      \<and> checkpoints (foldl (\<lambda>s v. save_vehicle v s) s vs) = checkpoints s" for s
    by (induction vs arbitrary: s) (simp_all add: save_vehicle_def)
  then show
    "parts (store (save_vehicles vs p)) = parts (store p)"
    "csv_output (store (save_vehicles vs p)) = csv_output (store p)"
    "parquet_output (store (save_vehicles vs p)) = parquet_output (store p)"
    "checkpoints (store (save_vehicles vs p)) = checkpoints (store p)"
    by (simp_all add: save_vehicles_def)
  show "force_reprocess (save_vehicles vs p) = force_reprocess p"
    "log (save_vehicles vs p) = log p"
    "total_groups_done (save_vehicles vs p) = total_groups_done p"
    "total_groups_failed (save_vehicles vs p) = total_groups_failed p"
    by (simp_all add: save_vehicles_def)
qed

subsection \<open>Running twice\<close>

text \<open>
  A second run, not forced, over groups that the first run left \<open>done\<close>, for any first
  run and any answer of the store's gate in either run.
\<close>

lemma rerun_unchanged:
  fixes w url ivc1 force1 parquet1 s0 vs
  defines "p1 \<equiv> process_vehicles ivc1 (extractor w) vs
                   (save_vehicles vs (new_pipeline force1 parquet1 s0))"
  assumes start: "launch w = None"
      and listing: "collect_vehicles (slugify w) (catalog w) url = Inr vs"
      and dn: "all_done (extractor w) vs (store p1)"
  shows "run ivc1 w url (new_pipeline force1 parquet1 s0) = Inr p1
       \<and> (\<exists>p2. run ivc2 w url (new_pipeline False parquet2 (store p1)) = Inr p2
              \<and> scraped (log p2) = []
              \<and> total_groups_done p2 = 0 \<and> total_groups_failed p2 = 0
              \<and> parts (store p2) = parts (store p1)
              \<and> csv_output (store p2) = csv_output (store p1)
              \<and> parquet_output (store p2) = parquet_output (store p1)
              \<and> checkpoints (store p2) = checkpoints (store p1))"
proof -
  have first: "run ivc1 w url (new_pipeline force1 parquet1 s0) = Inr p1"
    by (simp add: run_def start listing p1_def)
  define q where "q = save_vehicles vs (new_pipeline False parquet2 (store p1))"
  define p2 where "p2 = process_vehicles ivc2 (extractor w) vs q"
  have q: "\<not> force_reprocess q" "log q = []" "total_groups_done q = 0" "total_groups_failed q = 0"
      "parts (store q) = parts (store p1)" "csv_output (store q) = csv_output (store p1)"
      "parquet_output (store q) = parquet_output (store p1)"
      "checkpoints (store q) = checkpoints (store p1)"
    by (simp_all add: q_def new_pipeline_def)
  have "all_done (extractor w) vs (store q)"
    using dn all_done_checkpoints [OF q(8)] by simp
  with q(1) have same: "store p2 = store q \<and> scraped (log p2) = scraped (log q)
       \<and> total_groups_done p2 = total_groups_done q
       \<and> total_groups_failed p2 = total_groups_failed q"
    unfolding p2_def by (rule process_vehicles_all_done)
  have second: "run ivc2 w url (new_pipeline False parquet2 (store p1)) = Inr p2"
    by (simp add: run_def start listing p2_def q_def)
  from first second same q show ?thesis
    by simp
qed

lemma first_run_no_duplicates:
  assumes "distinct (map part_identity (parts s0))"
      and "distinct (map shard_identity (existing_rows (parquet_output s0)))"
  shows "no_duplicates_beside_csv
           (store (process_vehicles ivc ext vs (save_vehicles vs (new_pipeline force parquet s0))))"
proof -
  have "no_duplicates_beside_csv (store (save_vehicles vs (new_pipeline force parquet s0)))"
    using assms by (simp add: no_duplicates_beside_csv_def new_pipeline_def)
  then show ?thesis
    by (rule process_vehicles_no_duplicates)
qed

lemmas run_defs = run_def collect_vehicles_def vehicles_data_def to_vehicles.simps py_strip_def
  py_isspace_def save_vehicles_def save_vehicle_def process_vehicle_def after_vehicle_def
  mark_milestone_def milestone_every_def DataStore_is_vehicle_complete_def

text \<open>
  The scenario of the specification: after a first, forced run both groups are \<open>done\<close>,
  the table and the CSV file hold the two rows of \<open>G1\<close>.
\<close>

lemma example_first_run:
  "store (process_vehicles DataStore_is_vehicle_complete example_extractor [example_vehicle]
            (save_vehicles [example_vehicle] (new_pipeline True False empty_store))) =
   \<lparr>checkpoints =
      [(''v1'', ''ENGINE'', ''E-1'', ''G1'') \<mapsto>
         \<lparr>cp_status = ''done'', cp_row_count = Some 2, cp_image_saved = 0, cp_last_error = None\<rparr>,
       (''v1'', ''FRAME'', ''F-1'', ''G2'') \<mapsto>
         \<lparr>cp_status = ''done'', cp_row_count = Some 0, cp_image_saved = 0, cp_last_error = None\<rparr>],
    vehicles = [''v1'' \<mapsto> (''V1'', ''M1'', ''http://catalog'')],
    parts_pages =
      [(''v1'', ''ENGINE'', ''E-1'', ''G1'') \<mapsto> (''http://parts'', []),
       (''v1'', ''FRAME'', ''F-1'', ''G2'') \<mapsto> (''http://parts'', [])],
    parts = [(example_row ''1'' ''P1'' ''Bolt'')
               \<lparr>db_req_no := ''1'', db_moq := ''1'', db_mrp := ''10.00'',
                db_parts_page_url := ''http://parts'', db_source_url := ''http://catalog''\<rparr>,
             (example_row ''2'' ''P2'' ''Bolt'')
               \<lparr>db_req_no := ''1'', db_moq := ''1'', db_mrp := ''10.00'',
                db_parts_page_url := ''http://parts'', db_source_url := ''http://catalog''\<rparr>],
    csv_output = Some [example_shard_row ''G1'' ''1'' ''P1'', example_shard_row ''G1'' ''2'' ''P2''],
    parquet_output = None\<rparr>"
  by (simp add: run_defs group_loop_defs eval_defs ex_defs example_extractor_def
      example_row_def numeral_2_eq_2)

text \<open>
  The forced run over the rows with the reference numbers \<open>NA\<close> and \<open>N/A\<close>, from an
  empty store: \<open>G1\<close> is written first, with its two rows; writing \<open>G2\<close> reads the file
  back, and the two rows of \<open>G1\<close> come back with an empty reference number.
\<close>

lemma na_first_run:
  "store (process_vehicles DataStore_is_vehicle_complete na_extractor [example_vehicle]
            (save_vehicles [example_vehicle] (new_pipeline True False empty_store))) =
   \<lparr>checkpoints =
      [(''v1'', ''ENGINE'', ''E-1'', ''G1'') \<mapsto>
         \<lparr>cp_status = ''done'', cp_row_count = Some 2, cp_image_saved = 0, cp_last_error = None\<rparr>,
       (''v1'', ''FRAME'', ''F-1'', ''G2'') \<mapsto>
         \<lparr>cp_status = ''done'', cp_row_count = Some 1, cp_image_saved = 0, cp_last_error = None\<rparr>],
    vehicles = [''v1'' \<mapsto> (''V1'', ''M1'', ''http://catalog'')],
    parts_pages =
      [(''v1'', ''ENGINE'', ''E-1'', ''G1'') \<mapsto> (''http://parts'', []),
       (''v1'', ''FRAME'', ''F-1'', ''G2'') \<mapsto> (''http://parts'', [])],
    parts = [(example_row ''NA'' ''P1'' ''Bolt'')
               \<lparr>db_req_no := ''1'', db_moq := ''1'', db_mrp := ''10.00'',
                db_parts_page_url := ''http://parts'', db_source_url := ''http://catalog''\<rparr>,
             (example_row ''N/A'' ''P1'' ''Bolt'')
               \<lparr>db_req_no := ''1'', db_moq := ''1'', db_mrp := ''10.00'',
                db_parts_page_url := ''http://parts'', db_source_url := ''http://catalog''\<rparr>,
             (example_row ''1'' ''Q1'' ''Bolt'')
               \<lparr>db_group_type := ''FRAME'', db_table_no := ''F-1'', db_group_code := ''G2'',
                db_req_no := ''1'', db_moq := ''1'', db_mrp := ''10.00'',
                db_parts_page_url := ''http://parts'', db_source_url := ''http://catalog''\<rparr>],
    csv_output = Some na_csv,
    parquet_output = None\<rparr>"
  by (simp add: run_defs group_loop_defs eval_defs ex_defs na_extractor_def na_csv_def
      example_row_def numeral_2_eq_2)

text \<open>
  Claim C2 on the program. Let a first run (forced or not, with any gate) start from a
  store whose table \<open>parts\<close> and Parquet file hold no natural key twice, and let every
  group the extractor discovers have the checkpoint \<open>done\<close> after it. Then a second run,
  not forced, against the same catalogue and extractor returns, scrapes no group (none
  completes, none fails), and leaves the table \<open>parts\<close>, both output files and the
  checkpoints as the first run left them; the table and the Parquet file hold no natural
  key twice. This holds for every answer of the store's gate, the gate of \<open>DataStore\<close>
  included.

  The CSV file can hold a natural key twice. A forced run of \<open>na_world\<close> on an empty store
  completes both groups and leaves the CSV file \<open>na_csv\<close>, in which the two rows of \<open>G1\<close>
  have the same natural key: what stood in the file as \<open>NA\<close> and \<open>N/A\<close> was read back as
  the empty string when \<open>G2\<close> was written. The second run, not forced, leaves the file
  so, whatever the gate answers.
\<close>

theorem rerun_idempotent:
  fixes w url ivc1 force1 parquet1 s0 vs
  defines "p1 \<equiv> process_vehicles ivc1 (extractor w) vs
                   (save_vehicles vs (new_pipeline force1 parquet1 s0))"
  assumes start: "launch w = None"
      and listing: "collect_vehicles (slugify w) (catalog w) url = Inr vs"
      and inv: "distinct (map part_identity (parts s0))"
      and invq: "distinct (map shard_identity (existing_rows (parquet_output s0)))"
      and dn: "all_done (extractor w) vs (store p1)"
  shows "run ivc1 w url (new_pipeline force1 parquet1 s0) = Inr p1
       \<and> (\<exists>p2. run ivc2 w url (new_pipeline False parquet2 (store p1)) = Inr p2
              \<and> scraped (log p2) = []
              \<and> total_groups_done p2 = 0 \<and> total_groups_failed p2 = 0
              \<and> parts (store p2) = parts (store p1)
              \<and> csv_output (store p2) = csv_output (store p1)
              \<and> parquet_output (store p2) = parquet_output (store p1)
              \<and> checkpoints (store p2) = checkpoints (store p1)
              \<and> distinct (map part_identity (parts (store p2)))
              \<and> distinct (map shard_identity (existing_rows (parquet_output (store p2)))))
       \<and> (\<exists>q1. run DataStore_is_vehicle_complete na_world ''http://catalog''
                  (new_pipeline True False empty_store) = Inr q1
              \<and> all_done (extractor na_world) [example_vehicle] (store q1)
              \<and> csv_output (store q1) = Some na_csv
              \<and> (\<forall>gate pq. \<exists>q2.
                    run gate na_world ''http://catalog'' (new_pipeline False pq (store q1)) = Inr q2
                  \<and> scraped (log q2) = []
                  \<and> csv_output (store q2) = Some na_csv
                  \<and> distinct (map part_identity (parts (store q2)))
                  \<and> \<not> distinct (map shard_identity (existing_rows (csv_output (store q2))))
                  \<and> \<not> no_duplicates (store q2)))"
proof (intro conjI)
  note gen = rerun_unchanged [OF start listing, of ivc1 force1 parquet1 s0 ivc2 parquet2]
  have dn': "all_done (extractor w) vs
               (store (process_vehicles ivc1 (extractor w) vs
                         (save_vehicles vs (new_pipeline force1 parquet1 s0))))"
    using dn by (simp add: p1_def)
  from gen [OF dn'] show "run ivc1 w url (new_pipeline force1 parquet1 s0) = Inr p1"
    by (simp add: p1_def)
  have nd: "no_duplicates_beside_csv (store p1)"
    unfolding p1_def using inv invq by (rule first_run_no_duplicates)
  from gen [OF dn'] obtain p2 where p2:
      "run ivc2 w url (new_pipeline False parquet2 (store p1)) = Inr p2"
      "scraped (log p2) = []" "total_groups_done p2 = 0" "total_groups_failed p2 = 0"
      "parts (store p2) = parts (store p1)" "csv_output (store p2) = csv_output (store p1)"
      "parquet_output (store p2) = parquet_output (store p1)"
      "checkpoints (store p2) = checkpoints (store p1)"
    unfolding p1_def by blast
  from nd p2 show "\<exists>p2. run ivc2 w url (new_pipeline False parquet2 (store p1)) = Inr p2
              \<and> scraped (log p2) = []
              \<and> total_groups_done p2 = 0 \<and> total_groups_failed p2 = 0
              \<and> parts (store p2) = parts (store p1)
              \<and> csv_output (store p2) = csv_output (store p1)
              \<and> parquet_output (store p2) = parquet_output (store p1)
              \<and> checkpoints (store p2) = checkpoints (store p1)
              \<and> distinct (map part_identity (parts (store p2)))
              \<and> distinct (map shard_identity (existing_rows (parquet_output (store p2))))"
    by (auto simp: no_duplicates_beside_csv_def)
  let ?q1 = "process_vehicles DataStore_is_vehicle_complete (extractor na_world) [example_vehicle]
               (save_vehicles [example_vehicle] (new_pipeline True False empty_store))"
  have w: "launch na_world = None" "extractor na_world = na_extractor"
    by (simp_all add: na_world_def example_world_def)
  have cv: "collect_vehicles (slugify na_world) (catalog na_world) ''http://catalog'' =
              Inr [example_vehicle]"
    by (simp add: na_world_def example_world_def example_catalog_def collect_vehicles_def
        vehicles_data_def py_strip_def py_isspace_def example_vehicle_def)
  have ad: "all_done (extractor na_world) [example_vehicle] (store ?q1)"
    unfolding w na_first_run
    by (simp add: all_done_def groups_done_def checkpoint_status_def na_extractor_def
        group_of_def example_index_def example_vehicle_def)
  have csv: "csv_output (store ?q1) = Some na_csv"
    unfolding w na_first_run by simp
  have dp: "distinct (map part_identity (parts (store ?q1)))"
    unfolding w na_first_run by (simp add: part_identity_def example_row_def)
  have dup: "\<not> distinct (map shard_identity na_csv)"
    by (simp add: na_csv_def shard_identity_def example_shard_row_def)
  have second: "\<exists>q2. run gate na_world ''http://catalog'' (new_pipeline False pq (store ?q1)) = Inr q2
                  \<and> scraped (log q2) = []
                  \<and> csv_output (store q2) = Some na_csv
                  \<and> distinct (map part_identity (parts (store q2)))
                  \<and> \<not> distinct (map shard_identity (existing_rows (csv_output (store q2))))
                  \<and> \<not> no_duplicates (store q2)" for gate pq
  proof -
    from rerun_unchanged [OF w(1) cv ad, of gate pq] obtain q2 where
        "run gate na_world ''http://catalog'' (new_pipeline False pq (store ?q1)) = Inr q2"
        "scraped (log q2) = []" "parts (store q2) = parts (store ?q1)"
        "csv_output (store q2) = csv_output (store ?q1)"
      by blast
    with csv dp dup show ?thesis
      by (auto simp: no_duplicates_def existing_rows_def)
  qed
  have first: "run DataStore_is_vehicle_complete na_world ''http://catalog''
                 (new_pipeline True False empty_store) = Inr ?q1"
    by (simp add: run_def w(1) cv)
  from first ad csv second
  show "\<exists>q1. run DataStore_is_vehicle_complete na_world ''http://catalog''
                  (new_pipeline True False empty_store) = Inr q1
              \<and> all_done (extractor na_world) [example_vehicle] (store q1)
              \<and> csv_output (store q1) = Some na_csv
              \<and> (\<forall>gate pq. \<exists>q2.
                    run gate na_world ''http://catalog'' (new_pipeline False pq (store q1)) = Inr q2
                  \<and> scraped (log q2) = []
                  \<and> csv_output (store q2) = Some na_csv
                  \<and> distinct (map part_identity (parts (store q2)))
                  \<and> \<not> distinct (map shard_identity (existing_rows (csv_output (store q2))))
                  \<and> \<not> no_duplicates (store q2))"
    by blast
qed

text \<open>
  The scenario of the specification, whose rows hold no text that is read back as missing:
  after the forced first run both groups are \<open>done\<close>; the second run, not forced, scrapes
  nothing, and the CSV file holds the same two rows, without a duplicate.
\<close>

theorem rerun_idempotent_witness:
  "launch example_world = None
   \<and> collect_vehicles (slugify example_world) (catalog example_world) ''http://catalog'' =
       Inr [example_vehicle]
   \<and> distinct (map part_identity (parts empty_store))
   \<and> distinct (map shard_identity (existing_rows (parquet_output empty_store)))
   \<and> all_done (extractor example_world) [example_vehicle]
        (store (process_vehicles DataStore_is_vehicle_complete (extractor example_world)
                  [example_vehicle]
                  (save_vehicles [example_vehicle] (new_pipeline True False empty_store))))
   \<and> csv_output
        (store (process_vehicles DataStore_is_vehicle_complete (extractor example_world)
                  [example_vehicle]
                  (save_vehicles [example_vehicle] (new_pipeline True False empty_store)))) =
       Some [example_shard_row ''G1'' ''1'' ''P1'', example_shard_row ''G1'' ''2'' ''P2'']
   \<and> (\<exists>p2. run DataStore_is_vehicle_complete example_world ''http://catalog''
               (new_pipeline False False
                  (store (process_vehicles DataStore_is_vehicle_complete (extractor example_world)
                            [example_vehicle]
                            (save_vehicles [example_vehicle]
                               (new_pipeline True False empty_store))))) = Inr p2
           \<and> scraped (log p2) = []
           \<and> total_groups_done p2 = 0 \<and> total_groups_failed p2 = 0
           \<and> csv_output (store p2) =
               Some [example_shard_row ''G1'' ''1'' ''P1'', example_shard_row ''G1'' ''2'' ''P2'']
           \<and> no_duplicates (store p2))"
proof -
  let ?p1 = "process_vehicles DataStore_is_vehicle_complete (extractor example_world)
               [example_vehicle]
               (save_vehicles [example_vehicle] (new_pipeline True False empty_store))"
  have w: "launch example_world = None" "extractor example_world = example_extractor"
    by (simp_all add: example_world_def)
  have cv: "collect_vehicles (slugify example_world) (catalog example_world) ''http://catalog'' =
              Inr [example_vehicle]"
    by (simp add: example_world_def example_catalog_def collect_vehicles_def vehicles_data_def
        py_strip_def py_isspace_def example_vehicle_def)
  have nd: "distinct (map part_identity (parts empty_store))"
    "distinct (map shard_identity (existing_rows (parquet_output empty_store)))"
    by (simp_all add: existing_rows_def empty_store_def)
  have ad: "all_done (extractor example_world) [example_vehicle] (store ?p1)"
    unfolding w example_first_run
    by (simp add: all_done_def groups_done_def checkpoint_status_def example_extractor_def
        group_of_def example_index_def example_vehicle_def)
  have csv: "csv_output (store ?p1) =
               Some [example_shard_row ''G1'' ''1'' ''P1'', example_shard_row ''G1'' ''2'' ''P2'']"
    unfolding w example_first_run by simp
  have pq: "parquet_output (store ?p1) = None"
    unfolding w example_first_run by simp
  obtain p2 where p2:
      "run DataStore_is_vehicle_complete example_world ''http://catalog''
         (new_pipeline False False (store ?p1)) = Inr p2"
      "scraped (log p2) = []" "total_groups_done p2 = 0" "total_groups_failed p2 = 0"
      "csv_output (store p2) = csv_output (store ?p1)"
      "parquet_output (store p2) = parquet_output (store ?p1)"
      "distinct (map part_identity (parts (store p2)))"
    using rerun_idempotent [OF w(1) cv nd ad, of DataStore_is_vehicle_complete False]
    by blast
  have "distinct (map shard_identity
          [example_shard_row ''G1'' ''1'' ''P1'', example_shard_row ''G1'' ''2'' ''P2''])"
    by (simp add: shard_identity_def example_shard_row_def)
  with p2 csv pq have "no_duplicates (store p2)"
    by (simp add: no_duplicates_def existing_rows_def)
  with w(1) cv nd ad csv p2 show ?thesis
    by auto
qed

end
